theory Spec2Isabelle
  imports Complex_Main "HOL-Library.Word"
begin

unbundle bit_operations_syntax

section \<open>LRremote: infrared receiver, sampler and decoders\<close>

text \<open>
  A shallow embedding of \<^verbatim>\<open>LRremote.cpp\<close> and \<^verbatim>\<open>LRremote.h\<close>. The library is
  written for the AVR (it includes \<^verbatim>\<open>avr/interrupt.h\<close>), so the integer widths are
  those of avr-gcc: \<^verbatim>\<open>int\<close> and \<^verbatim>\<open>unsigned int\<close> have 16 bits, \<^verbatim>\<open>long\<close> and
  \<^verbatim>\<open>unsigned long\<close> have 32 bits, \<^verbatim>\<open>unsigned long long\<close> has 64 bits.
  Arithmetic on the decoded data, on the hash and on the repeat counter is two's
  complement arithmetic on words of these widths; where C leaves a signed overflow
  undefined (the shifts of \<^verbatim>\<open>data\<close>, the product in the hash, \<^verbatim>\<open>++repeat\<close>), this is
  what the compiled code computes. Counters that only index the buffer
  (\<^verbatim>\<open>rawlen\<close>, \<^verbatim>\<open>offset\<close>, \<^verbatim>\<open>used\<close>, \<^verbatim>\<open>nbits\<close>) are natural numbers; the decoded
  bit count and the protocol tag are integers.
\<close>

subsection \<open>Constants of \<^verbatim>\<open>LRremote.h\<close>\<close>

type_synonym tick = "16 word"
type_synonym u32 = "32 word"
type_synonym u64 = "64 word"

definition NEC :: int where "NEC = 1"
definition SONY :: int where "SONY = 2"
definition RC5 :: int where "RC5 = 3"
definition RC6 :: int where "RC6 = 4"
definition DISH :: int where "DISH = 5"
definition SHARP :: int where "SHARP = 6"
definition PANASONIC :: int where "PANASONIC = 7"
definition JVC :: int where "JVC = 8"
definition SANYO :: int where "SANYO = 9"
definition MITSUBISHI :: int where "MITSUBISHI = 10"
definition SAMSUNG :: int where "SAMSUNG = 11"
definition LG :: int where "LG = 12"
definition UNKNOWN :: int where "UNKNOWN = -1"

definition RAWBUF :: nat where "RAWBUF = 100"
definition REPEAT :: u32 where "REPEAT = 0xffffffff"
definition REPEAT_PAUSE :: int where "REPEAT_PAUSE = 3"
definition MARK_EXCESS :: int where "MARK_EXCESS = 100"

subsection \<open>The declarations of \<^verbatim>\<open>LRremoteInt.h\<close>\<close>

text \<open>
  \<^verbatim>\<open>LRremoteInt.h\<close> is included by \<^verbatim>\<open>LRremote.cpp\<close> but is not among the source
  files. It declares the two input levels, the four states of the sampler, the
  tolerance macros \<^verbatim>\<open>TICKS_LOW\<close> and \<^verbatim>\<open>TICKS_HIGH\<close>, the gap threshold and the
  nominal timings and bit counts of every protocol. The levels and the states are
  enumerations here; everything else is a field of the record \<open>config\<close>, which every
  function that uses one of these macros takes as its first argument. Nominal
  durations are in microseconds.
\<close>

datatype level = MARK | SPACE

datatype rcvstate = STATE_IDLE | STATE_MARK | STATE_SPACE | STATE_STOP

record config =
  TICKS_LOW :: "int \<Rightarrow> int"
  TICKS_HIGH :: "int \<Rightarrow> int"
  GAP_TICKS :: tick
  NEC_HDR_MARK :: int
  NEC_HDR_SPACE :: int
  NEC_BIT_MARK :: int
  NEC_ONE_SPACE :: int
  NEC_ZERO_SPACE :: int
  NEC_RPT_SPACE :: int
  NEC_BITS :: nat
  SONY_HDR_MARK :: int
  SONY_HDR_SPACE :: int
  SONY_ONE_MARK :: int
  SONY_ZERO_MARK :: int
  SONY_DOUBLE_SPACE_USECS :: tick
  SONY_BITS :: nat
  SANYO_HDR_MARK :: int
  SANYO_HDR_SPACE :: int
  SANYO_ONE_MARK :: int
  SANYO_ZERO_MARK :: int
  SANYO_DOUBLE_SPACE_USECS :: tick
  SANYO_BITS :: nat
  MITSUBISHI_HDR_SPACE :: int
  MITSUBISHI_ONE_MARK :: int
  MITSUBISHI_ZERO_MARK :: int
  MITSUBISHI_BITS :: nat
  MIN_RC5_SAMPLES :: nat
  RC5_T1 :: int
  MIN_RC6_SAMPLES :: nat
  RC6_HDR_MARK :: int
  RC6_HDR_SPACE :: int
  RC6_T1 :: int
  PANASONIC_HDR_MARK :: int
  PANASONIC_HDR_SPACE :: int
  PANASONIC_BIT_MARK :: int
  PANASONIC_ONE_SPACE :: int
  PANASONIC_ZERO_SPACE :: int
  PANASONIC_BITS :: nat
  LG_HDR_MARK :: int
  LG_HDR_SPACE :: int
  LG_BIT_MARK :: int
  LG_ONE_SPACE :: int
  LG_ZERO_SPACE :: int
  LG_BITS :: nat
  JVC_HDR_MARK :: int
  JVC_HDR_SPACE :: int
  JVC_BIT_MARK :: int
  JVC_ONE_SPACE :: int
  JVC_ZERO_SPACE :: int
  JVC_BITS :: nat
  SAMSUNG_HDR_MARK :: int
  SAMSUNG_HDR_SPACE :: int
  SAMSUNG_BIT_MARK :: int
  SAMSUNG_ONE_SPACE :: int
  SAMSUNG_ZERO_SPACE :: int
  SAMSUNG_RPT_SPACE :: int
  SAMSUNG_BITS :: nat

subsection \<open>The state: the globals of the sampler and the fields of the object\<close>

text \<open>
  \<open>rawbuf\<close> is the array \<^verbatim>\<open>rawbuf[RAWBUF]\<close>: a function from the index to the entry,
  of which only the indices below \<open>RAWBUF\<close> exist. A read or a write at an index that
  does not exist is undefined in C; here it is the error \<open>OutOfBounds\<close>.
\<close>

record state =
  rcvstate :: rcvstate
  timer :: tick
  rawbuf :: "nat \<Rightarrow> tick"
  rawlen :: nat
  decode_type :: int
  panasonicAddress :: "16 word"
  "value" :: u32
  bits :: int
  lastValue :: u32
  repeat :: "16 word"

datatype error = OutOfBounds nat

definition bind_err :: "error + 'a \<Rightarrow> ('a \<Rightarrow> error + 'b) \<Rightarrow> error + 'b" where
  "bind_err m f = (case m of Inl e \<Rightarrow> Inl e | Inr x \<Rightarrow> f x)"

definition rd :: "(nat \<Rightarrow> tick) \<Rightarrow> nat \<Rightarrow> error + tick" where
  "rd buf i = (if i < RAWBUF then Inr (buf i) else Inl (OutOfBounds i))"

text \<open>The constructor: \<^verbatim>\<open>lastValue = repeat = 0\<close>, state idle, no entries. The other
  fields keep whatever the object held; the timer and the buffer are zero-initialised
  globals.\<close>

definition LRremote :: "state \<Rightarrow> state" where
  "LRremote s = s\<lparr>lastValue := 0, repeat := 0, rcvstate := STATE_IDLE, rawlen := 0\<rparr>"

definition init_state :: state where
  "init_state = \<lparr>rcvstate = STATE_IDLE, timer = 0, rawbuf = (\<lambda>_. 0), rawlen = 0,
     decode_type = 0, panasonicAddress = 0, value = 0, bits = 0, lastValue = 0, repeat = 0\<rparr>"

subsection \<open>The timer interrupt: the sampler\<close>

text \<open>\<^verbatim>\<open>rawbuf[rawlen++] = timer\<close>.\<close>

definition rawbuf_push :: "state \<Rightarrow> error + state" where
  "rawbuf_push s =
     (if rawlen s < RAWBUF
      then Inr (s\<lparr>rawbuf := (rawbuf s)(rawlen s := timer s), rawlen := rawlen s + 1\<rparr>)
      else Inl (OutOfBounds (rawlen s)))"

text \<open>One tick. \<open>irdata\<close> is the level that \<^verbatim>\<open>digitalRead\<close> returns.\<close>

definition ISR :: "config \<Rightarrow> level \<Rightarrow> state \<Rightarrow> error + state" where
  "ISR cfg irdata s0 =
     (let s1 = s0\<lparr>timer := timer s0 + 1\<rparr>;
          s = (if rawlen s1 \<ge> RAWBUF then s1\<lparr>rcvstate := STATE_STOP\<rparr> else s1)
      in case rcvstate s of
           STATE_IDLE \<Rightarrow>
             (if irdata = MARK then
                (if timer s < GAP_TICKS cfg then Inr (s\<lparr>timer := 0\<rparr>)
                 else bind_err (rawbuf_push (s\<lparr>rawlen := 0\<rparr>))
                        (\<lambda>s'. Inr (s'\<lparr>timer := 0, rcvstate := STATE_MARK\<rparr>)))
              else if timer s > GAP_TICKS cfg then Inr (s\<lparr>timer := GAP_TICKS cfg\<rparr>)
              else Inr s)
         | STATE_MARK \<Rightarrow>
             (if irdata = SPACE then
                bind_err (rawbuf_push s) (\<lambda>s'. Inr (s'\<lparr>timer := 0, rcvstate := STATE_SPACE\<rparr>))
              else Inr s)
         | STATE_SPACE \<Rightarrow>
             (if irdata = MARK then
                bind_err (rawbuf_push s) (\<lambda>s'. Inr (s'\<lparr>timer := 0, rcvstate := STATE_MARK\<rparr>))
              else if timer s \<ge> GAP_TICKS cfg then Inr (s\<lparr>rcvstate := STATE_STOP\<rparr>)
              else Inr s)
         | STATE_STOP \<Rightarrow> Inr (s\<lparr>timer := 0\<rparr>))"

text \<open>The states the sampler reaches from the initial state, tick by tick, on any input.\<close>

inductive reachable :: "config \<Rightarrow> state \<Rightarrow> bool" for cfg :: config where
  reach_init: "reachable cfg init_state"
| reach_tick: "reachable cfg s \<Longrightarrow> ISR cfg irdata s = Inr s' \<Longrightarrow> reachable cfg s'"

text \<open>\<^verbatim>\<open>resume()\<close>.\<close>

definition resume :: "state \<Rightarrow> state" where
  "resume s = s\<lparr>rawlen := 0, rcvstate := STATE_IDLE\<rparr>"

subsection \<open>Tolerance matching\<close>

text \<open>The callers pass an \<^verbatim>\<open>unsigned int\<close> entry of the buffer for the \<^verbatim>\<open>int\<close>
  parameter \<open>measured\<close>: the conversion is \<open>sint\<close>.\<close>

definition MATCH :: "config \<Rightarrow> int \<Rightarrow> int \<Rightarrow> bool" where
  "MATCH cfg measured desired =
     (measured \<ge> TICKS_LOW cfg desired \<and> measured \<le> TICKS_HIGH cfg desired)"

definition MATCH_MARK :: "config \<Rightarrow> int \<Rightarrow> int \<Rightarrow> bool" where
  "MATCH_MARK cfg measured_ticks desired_us = MATCH cfg measured_ticks (desired_us + MARK_EXCESS)"

definition MATCH_SPACE :: "config \<Rightarrow> int \<Rightarrow> int \<Rightarrow> bool" where
  "MATCH_SPACE cfg measured_ticks desired_us = MATCH cfg measured_ticks (desired_us - MARK_EXCESS)"

lemma bind_err_cong [fundef_cong]:
  "m = m' \<Longrightarrow> (\<And>x. m' = Inr x \<Longrightarrow> f x = f' x) \<Longrightarrow> bind_err m f = bind_err m' f'"
  by (auto simp: bind_err_def split: sum.splits)

subsection \<open>The bit loops of the decoders\<close>

text \<open>
  The loop of \<^verbatim>\<open>decodeNEC\<close>, \<^verbatim>\<open>decodePanasonic\<close>, \<^verbatim>\<open>decodeLG\<close>, \<^verbatim>\<open>decodeJVC\<close>
  and \<^verbatim>\<open>decodeSAMSUNG\<close>, which differ in their constants and in the width of \<open>data\<close>
  only: \<open>n\<close> bits, each a mark of fixed length and a space whose length is the bit.
  \<open>None\<close> is \<^verbatim>\<open>return false\<close>; otherwise the loop ends with the offset and the data.
\<close>

fun space_loop ::
  "config \<Rightarrow> int \<Rightarrow> int \<Rightarrow> int \<Rightarrow> (nat \<Rightarrow> tick) \<Rightarrow> nat \<Rightarrow> nat \<Rightarrow> 'a::len word
     \<Rightarrow> error + (nat \<times> 'a word) option" where
  "space_loop cfg bit_mark one_space zero_space buf 0 offset data = Inr (Some (offset, data))"
| "space_loop cfg bit_mark one_space zero_space buf (Suc n) offset data =
     bind_err (rd buf offset) (\<lambda>m.
       if \<not> MATCH_MARK cfg (sint m) bit_mark then Inr None
       else bind_err (rd buf (offset + 1)) (\<lambda>sp.
         if MATCH_SPACE cfg (sint sp) one_space
         then space_loop cfg bit_mark one_space zero_space buf n (offset + 2) (push_bit 1 data OR 1)
         else if MATCH_SPACE cfg (sint sp) zero_space
         then space_loop cfg bit_mark one_space zero_space buf n (offset + 2) (push_bit 1 data)
         else Inr None))"

text \<open>The loop of \<^verbatim>\<open>decodeSony\<close> and \<^verbatim>\<open>decodeSanyo\<close>: while two more entries are
  there, a space that matches the header space (the loop ends where it does not),
  then a mark whose length is the bit.\<close>

function mark_loop ::
  "config \<Rightarrow> int \<Rightarrow> int \<Rightarrow> int \<Rightarrow> (nat \<Rightarrow> tick) \<Rightarrow> nat \<Rightarrow> nat \<Rightarrow> u32
     \<Rightarrow> error + (nat \<times> u32) option" where
  "mark_loop cfg hdr_space one_mark zero_mark buf len offset data =
     (if offset + 1 < len then
        bind_err (rd buf offset) (\<lambda>sp.
          if \<not> MATCH_SPACE cfg (sint sp) hdr_space then Inr (Some (offset, data))
          else bind_err (rd buf (offset + 1)) (\<lambda>m.
            if MATCH_MARK cfg (sint m) one_mark
            then mark_loop cfg hdr_space one_mark zero_mark buf len (offset + 2) (push_bit 1 data OR 1)
            else if MATCH_MARK cfg (sint m) zero_mark
            then mark_loop cfg hdr_space one_mark zero_mark buf len (offset + 2) (push_bit 1 data)
            else Inr None))
      else Inr (Some (offset, data)))"
  by pat_completeness auto
termination
  by (relation "measure (\<lambda>(cfg, hs, om, zm, buf, len, offset, data). len - offset)") auto

declare mark_loop.simps [simp del]

text \<open>The loop of \<^verbatim>\<open>decodeMitsubishi\<close>: the mark first, then the space, at which
  the loop ends when it does not match.\<close>

function mitsubishi_loop ::
  "config \<Rightarrow> (nat \<Rightarrow> tick) \<Rightarrow> nat \<Rightarrow> nat \<Rightarrow> u32 \<Rightarrow> error + (nat \<times> u32) option" where
  "mitsubishi_loop cfg buf len offset data =
     (if offset + 1 < len then
        bind_err (rd buf offset) (\<lambda>m.
          case (if MATCH_MARK cfg (sint m) (MITSUBISHI_ONE_MARK cfg) then Some (push_bit 1 data OR 1)
                else if MATCH_MARK cfg (sint m) (MITSUBISHI_ZERO_MARK cfg) then Some (push_bit 1 data)
                else None) of
            None \<Rightarrow> Inr None
          | Some data' \<Rightarrow>
              bind_err (rd buf (offset + 1)) (\<lambda>sp.
                if \<not> MATCH_SPACE cfg (sint sp) (MITSUBISHI_HDR_SPACE cfg)
                then Inr (Some (offset + 1, data'))
                else mitsubishi_loop cfg buf len (offset + 2) data'))
      else Inr (Some (offset, data)))"
  by pat_completeness auto
termination
  by (relation "measure (\<lambda>(cfg, buf, len, offset, data). len - offset)") auto

declare mitsubishi_loop.simps [simp del]

subsection \<open>The decoders for NEC, Sony, Sanyo and Mitsubishi\<close>

text \<open>A decoder returns \<^verbatim>\<open>true\<close> or \<^verbatim>\<open>false\<close> and the state it leaves. The entries
  0 to 3 and \<^verbatim>\<open>rawbuf[rawlen-1]\<close> where \<^verbatim>\<open>rawlen - 1 == 33\<close> exist in every state, so
  they are read directly.\<close>

definition decodeNEC :: "config \<Rightarrow> state \<Rightarrow> error + (bool \<times> state)" where
  "decodeNEC cfg s =
     (if \<not> MATCH_MARK cfg (sint (rawbuf s 1)) (NEC_HDR_MARK cfg) then Inr (False, s)
      else if rawlen s = 4
              \<and> MATCH_SPACE cfg (sint (rawbuf s 2)) (NEC_RPT_SPACE cfg)
              \<and> MATCH_MARK cfg (sint (rawbuf s 3)) (NEC_BIT_MARK cfg)
      then Inr (True, s\<lparr>bits := 0, value := REPEAT, decode_type := NEC\<rparr>)
      else if rawlen s < 2 * NEC_BITS cfg + 4 then Inr (False, s)
      else if \<not> MATCH_SPACE cfg (sint (rawbuf s 2)) (NEC_HDR_SPACE cfg) then Inr (False, s)
      else bind_err
             (space_loop cfg (NEC_BIT_MARK cfg) (NEC_ONE_SPACE cfg) (NEC_ZERO_SPACE cfg)
                (rawbuf s) (NEC_BITS cfg) 3 (0 :: u32))
             (\<lambda>r. case r of
                None \<Rightarrow> Inr (False, s)
              | Some (offset, data) \<Rightarrow>
                  Inr (True, s\<lparr>bits := int (NEC_BITS cfg), value := data, decode_type := NEC\<rparr>)))"

definition decodeSony :: "config \<Rightarrow> state \<Rightarrow> error + (bool \<times> state)" where
  "decodeSony cfg s =
     (if rawlen s < 2 * SONY_BITS cfg + 2 then Inr (False, s)
      else if rawbuf s 0 < SONY_DOUBLE_SPACE_USECS cfg
      then Inr (True, s\<lparr>bits := 0, value := REPEAT, decode_type := SANYO\<rparr>)
      else if \<not> MATCH_MARK cfg (sint (rawbuf s 1)) (SONY_HDR_MARK cfg) then Inr (False, s)
      else bind_err
             (mark_loop cfg (SONY_HDR_SPACE cfg) (SONY_ONE_MARK cfg) (SONY_ZERO_MARK cfg)
                (rawbuf s) (rawlen s) 2 0)
             (\<lambda>r. case r of
                None \<Rightarrow> Inr (False, s)
              | Some (offset, data) \<Rightarrow>
                  (let s1 = s\<lparr>bits := (int offset - 1) div 2\<rparr>
                   in if bits s1 < 12 then Inr (False, s1\<lparr>bits := 0\<rparr>)
                      else Inr (True, s1\<lparr>value := data, decode_type := SONY\<rparr>))))"

definition decodeSanyo :: "config \<Rightarrow> state \<Rightarrow> error + (bool \<times> state)" where
  "decodeSanyo cfg s =
     (if rawlen s < 2 * SANYO_BITS cfg + 2 then Inr (False, s)
      else if rawbuf s 0 < SANYO_DOUBLE_SPACE_USECS cfg
      then Inr (True, s\<lparr>bits := 0, value := REPEAT, decode_type := SANYO\<rparr>)
      else if \<not> MATCH_MARK cfg (sint (rawbuf s 1)) (SANYO_HDR_MARK cfg) then Inr (False, s)
      else if \<not> MATCH_MARK cfg (sint (rawbuf s 2)) (SANYO_HDR_MARK cfg) then Inr (False, s)
      else bind_err
             (mark_loop cfg (SANYO_HDR_SPACE cfg) (SANYO_ONE_MARK cfg) (SANYO_ZERO_MARK cfg)
                (rawbuf s) (rawlen s) 3 0)
             (\<lambda>r. case r of
                None \<Rightarrow> Inr (False, s)
              | Some (offset, data) \<Rightarrow>
                  (let s1 = s\<lparr>bits := (int offset - 1) div 2\<rparr>
                   in if bits s1 < 12 then Inr (False, s1\<lparr>bits := 0\<rparr>)
                      else Inr (True, s1\<lparr>value := data, decode_type := SANYO\<rparr>))))"

definition decodeMitsubishi :: "config \<Rightarrow> state \<Rightarrow> error + (bool \<times> state)" where
  "decodeMitsubishi cfg s =
     (if rawlen s < 2 * MITSUBISHI_BITS cfg + 2 then Inr (False, s)
      else if \<not> MATCH_MARK cfg (sint (rawbuf s 1)) (MITSUBISHI_HDR_SPACE cfg) then Inr (False, s)
      else bind_err (mitsubishi_loop cfg (rawbuf s) (rawlen s) 2 0)
             (\<lambda>r. case r of
                None \<Rightarrow> Inr (False, s)
              | Some (offset, data) \<Rightarrow>
                  (let s1 = s\<lparr>bits := (int offset - 1) div 2\<rparr>
                   in if bits s1 < int (MITSUBISHI_BITS cfg) then Inr (False, s1\<lparr>bits := 0\<rparr>)
                      else Inr (True, s1\<lparr>value := data, decode_type := MITSUBISHI\<rparr>))))"

subsection \<open>RC5 and RC6\<close>

text \<open>\<^verbatim>\<open>getRClevel(&offset, &used, t1)\<close> returns the level (\<open>None\<close> for \<^verbatim>\<open>-1\<close>) and
  the new values of \<open>offset\<close> and \<open>used\<close>.\<close>

definition getRClevel ::
  "config \<Rightarrow> (nat \<Rightarrow> tick) \<Rightarrow> nat \<Rightarrow> nat \<Rightarrow> nat \<Rightarrow> int \<Rightarrow> error + (level option \<times> nat \<times> nat)" where
  "getRClevel cfg buf len offset used t1 =
     (if offset \<ge> len then Inr (Some SPACE, offset, used)
      else bind_err (rd buf offset) (\<lambda>w.
        let width = sint w;
            val = (if offset mod 2 \<noteq> 0 then MARK else SPACE);
            correction = (if val = MARK then MARK_EXCESS else - MARK_EXCESS)
        in case (if MATCH cfg width (t1 + correction) then Some (1 :: nat)
                 else if MATCH cfg width (2 * t1 + correction) then Some 2
                 else if MATCH cfg width (3 * t1 + correction) then Some 3
                 else None) of
             None \<Rightarrow> Inr (None, offset, used)
           | Some avail \<Rightarrow>
               (if used + 1 \<ge> avail then Inr (Some val, offset + 1, 0)
                else Inr (Some val, offset, used + 1))))"

text \<open>What a call of \<open>getRClevel\<close> leaves to be read: it never grows, and it shrinks
  when the offset is inside the recorded entries and a level is returned.\<close>

definition rc_left :: "nat \<Rightarrow> nat \<Rightarrow> nat \<Rightarrow> nat" where
  "rc_left len offset used = 4 * (len - offset) - min used 3"

lemma getRClevel_left:
  assumes "getRClevel cfg buf len offset used t1 = Inr (l, offset', used')"
  shows "rc_left len offset' used' \<le> rc_left len offset used"
    and "offset < len \<Longrightarrow> l \<noteq> None \<Longrightarrow> rc_left len offset' used' < rc_left len offset used"
  using assms
  by (auto simp: getRClevel_def rc_left_def bind_err_def rd_def Let_def
           split: if_splits sum.splits option.splits)

text \<open>The loop of \<^verbatim>\<open>decodeRC5\<close>: \<^verbatim>\<open>for (nbits = 0; offset < rawlen; nbits++)\<close>.\<close>

function RC5_loop ::
  "config \<Rightarrow> (nat \<Rightarrow> tick) \<Rightarrow> nat \<Rightarrow> nat \<Rightarrow> nat \<Rightarrow> nat \<Rightarrow> u32 \<Rightarrow> error + (nat \<times> u32) option" where
  "RC5_loop cfg buf len offset used nbits data =
     (if offset < len then
        (case getRClevel cfg buf len offset used (RC5_T1 cfg) of
           Inl e \<Rightarrow> Inl e
         | Inr (levelA, offset1, used1) \<Rightarrow>
             (case getRClevel cfg buf len offset1 used1 (RC5_T1 cfg) of
                Inl e \<Rightarrow> Inl e
              | Inr (levelB, offset2, used2) \<Rightarrow>
                  if levelA = Some SPACE \<and> levelB = Some MARK
                  then RC5_loop cfg buf len offset2 used2 (nbits + 1) (push_bit 1 data OR 1)
                  else if levelA = Some MARK \<and> levelB = Some SPACE
                  then RC5_loop cfg buf len offset2 used2 (nbits + 1) (push_bit 1 data)
                  else Inr None))
      else Inr (Some (nbits, data)))"
  by pat_completeness auto
termination
proof (relation "measure (\<lambda>(cfg, buf, len, offset, used, nbits, data). rc_left len offset used)",
    goal_cases)
  case 1
  show ?case by simp
next
  case (2 cfg buf len offset used nbits data x2 levelA y offset1 used1 x2a levelB ya offset2 used2)
  then show ?case
    using getRClevel_left [of cfg buf len offset used "RC5_T1 cfg" levelA offset1 used1]
      getRClevel_left(1) [of cfg buf len offset1 used1 "RC5_T1 cfg" levelB offset2 used2]
    by auto
next
  case (3 cfg buf len offset used nbits data x2 levelA y offset1 used1 x2a levelB ya offset2 used2)
  then show ?case
    using getRClevel_left [of cfg buf len offset used "RC5_T1 cfg" levelA offset1 used1]
      getRClevel_left(1) [of cfg buf len offset1 used1 "RC5_T1 cfg" levelB offset2 used2]
    by auto
qed

declare RC5_loop.simps [simp del]

text \<open>In \<^verbatim>\<open>decodeRC6\<close> the bit with \<^verbatim>\<open>nbits == 3\<close> is double wide: each of its
  levels is read a second time and must repeat
  (\<^verbatim>\<open>if (nbits == 3) { if (level != getRClevel(...)) return false; }\<close>).\<close>

definition RC6_second ::
  "config \<Rightarrow> (nat \<Rightarrow> tick) \<Rightarrow> nat \<Rightarrow> nat \<Rightarrow> nat \<Rightarrow> nat \<Rightarrow> level option
     \<Rightarrow> error + (bool \<times> nat \<times> nat)" where
  "RC6_second cfg buf len offset used nbits lvl =
     (if nbits = 3
      then bind_err (getRClevel cfg buf len offset used (RC6_T1 cfg))
             (\<lambda>(l, offset', used'). Inr (lvl = l, offset', used'))
      else Inr (True, offset, used))"

text \<open>The two levels of one bit; \<open>None\<close> is the \<^verbatim>\<open>return false\<close> of a half that does
  not repeat.\<close>

definition RC6_levels ::
  "config \<Rightarrow> (nat \<Rightarrow> tick) \<Rightarrow> nat \<Rightarrow> nat \<Rightarrow> nat \<Rightarrow> nat
     \<Rightarrow> error + (level option \<times> level option \<times> nat \<times> nat) option" where
  "RC6_levels cfg buf len offset used nbits =
     bind_err (getRClevel cfg buf len offset used (RC6_T1 cfg)) (\<lambda>(levelA, offset1, used1).
     bind_err (RC6_second cfg buf len offset1 used1 nbits levelA) (\<lambda>(sameA, offset2, used2).
     if \<not> sameA then Inr None else
     bind_err (getRClevel cfg buf len offset2 used2 (RC6_T1 cfg)) (\<lambda>(levelB, offset3, used3).
     bind_err (RC6_second cfg buf len offset3 used3 nbits levelB) (\<lambda>(sameB, offset4, used4).
     if \<not> sameB then Inr None else Inr (Some (levelA, levelB, offset4, used4))))))"

lemma bind_err_Inr: "bind_err m f = Inr y \<longleftrightarrow> (\<exists>x. m = Inr x \<and> f x = Inr y)"
  by (cases m) (simp_all add: bind_err_def)

lemma RC6_second_left:
  "RC6_second cfg buf len offset used nbits lvl = Inr (same, offset', used')
   \<Longrightarrow> rc_left len offset' used' \<le> rc_left len offset used"
  by (auto simp: RC6_second_def bind_err_Inr split: if_splits
           dest: getRClevel_left(1))

lemma RC6_levels_left:
  assumes "RC6_levels cfg buf len offset used nbits = Inr (Some (levelA, levelB, offset', used'))"
    and "offset < len" and "levelA \<noteq> None"
  shows "rc_left len offset' used' < rc_left len offset used"
  using assms
  apply (clarsimp simp: RC6_levels_def bind_err_Inr split: if_splits)
  subgoal for y o1 u1 sa o2 u2 o3 u3 sb
    using getRClevel_left(2) [of cfg buf len offset used "RC6_T1 cfg" "Some y" o1 u1]
      RC6_second_left [of cfg buf len o1 u1 nbits "Some y" True o2 u2]
      getRClevel_left(1) [of cfg buf len o2 u2 "RC6_T1 cfg" levelB o3 u3]
      RC6_second_left [of cfg buf len o3 u3 nbits levelB True offset' used']
    by simp
  done

function RC6_loop ::
  "config \<Rightarrow> (nat \<Rightarrow> tick) \<Rightarrow> nat \<Rightarrow> nat \<Rightarrow> nat \<Rightarrow> nat \<Rightarrow> u32 \<Rightarrow> error + (nat \<times> u32) option" where
  "RC6_loop cfg buf len offset used nbits data =
     (if offset < len then
        (case RC6_levels cfg buf len offset used nbits of
           Inl e \<Rightarrow> Inl e
         | Inr None \<Rightarrow> Inr None
         | Inr (Some (levelA, levelB, offset', used')) \<Rightarrow>
             if levelA = Some MARK \<and> levelB = Some SPACE
             then RC6_loop cfg buf len offset' used' (nbits + 1) (push_bit 1 data OR 1)
             else if levelA = Some SPACE \<and> levelB = Some MARK
             then RC6_loop cfg buf len offset' used' (nbits + 1) (push_bit 1 data)
             else Inr None)
      else Inr (Some (nbits, data)))"
  by pat_completeness auto
termination
  apply (relation "measure (\<lambda>(cfg, buf, len, offset, used, nbits, data). rc_left len offset used)")
    apply simp
  subgoal for cfg buf len offset used nbits data b x2 x y xa ya xb yb
    using RC6_levels_left [of cfg buf len offset used nbits x xa xb yb] by auto
  subgoal for cfg buf len offset used nbits data b x2 x y xa ya xb yb
    using RC6_levels_left [of cfg buf len offset used nbits x xa xb yb] by auto
  done

declare RC6_loop.simps [simp del]

definition decodeRC5 :: "config \<Rightarrow> state \<Rightarrow> error + (bool \<times> state)" where
  "decodeRC5 cfg s =
     (if rawlen s < MIN_RC5_SAMPLES cfg + 2 then Inr (False, s)
      else
        bind_err (getRClevel cfg (rawbuf s) (rawlen s) 1 0 (RC5_T1 cfg)) (\<lambda>(l1, offset1, used1).
        if l1 \<noteq> Some MARK then Inr (False, s) else
        bind_err (getRClevel cfg (rawbuf s) (rawlen s) offset1 used1 (RC5_T1 cfg)) (\<lambda>(l2, offset2, used2).
        if l2 \<noteq> Some SPACE then Inr (False, s) else
        bind_err (getRClevel cfg (rawbuf s) (rawlen s) offset2 used2 (RC5_T1 cfg)) (\<lambda>(l3, offset3, used3).
        if l3 \<noteq> Some MARK then Inr (False, s) else
        bind_err (RC5_loop cfg (rawbuf s) (rawlen s) offset3 used3 0 0)
          (\<lambda>r. case r of
             None \<Rightarrow> Inr (False, s)
           | Some (nbits, data) \<Rightarrow>
               Inr (True, s\<lparr>bits := int nbits, value := data, decode_type := RC5\<rparr>))))))"

definition decodeRC6 :: "config \<Rightarrow> state \<Rightarrow> error + (bool \<times> state)" where
  "decodeRC6 cfg s =
     (if rawlen s < MIN_RC6_SAMPLES cfg then Inr (False, s)
      else if \<not> MATCH_MARK cfg (sint (rawbuf s 1)) (RC6_HDR_MARK cfg) then Inr (False, s)
      else if \<not> MATCH_SPACE cfg (sint (rawbuf s 2)) (RC6_HDR_SPACE cfg) then Inr (False, s)
      else
        bind_err (getRClevel cfg (rawbuf s) (rawlen s) 3 0 (RC6_T1 cfg)) (\<lambda>(l1, offset1, used1).
        if l1 \<noteq> Some MARK then Inr (False, s) else
        bind_err (getRClevel cfg (rawbuf s) (rawlen s) offset1 used1 (RC6_T1 cfg)) (\<lambda>(l2, offset2, used2).
        if l2 \<noteq> Some SPACE then Inr (False, s) else
        bind_err (RC6_loop cfg (rawbuf s) (rawlen s) offset2 used2 0 0)
          (\<lambda>r. case r of
             None \<Rightarrow> Inr (False, s)
           | Some (nbits, data) \<Rightarrow>
               Inr (True, s\<lparr>bits := int nbits, value := data, decode_type := RC6\<rparr>)))))"

subsection \<open>Panasonic, LG, JVC and Samsung\<close>

text \<open>\<^verbatim>\<open>decodePanasonic\<close> collects the bits in an \<^verbatim>\<open>unsigned long long\<close> and never
  looks at \<^verbatim>\<open>rawlen\<close>.\<close>

definition decodePanasonic :: "config \<Rightarrow> state \<Rightarrow> error + (bool \<times> state)" where
  "decodePanasonic cfg s =
     (if \<not> MATCH_MARK cfg (sint (rawbuf s 1)) (PANASONIC_HDR_MARK cfg) then Inr (False, s)
      else if \<not> MATCH_MARK cfg (sint (rawbuf s 2)) (PANASONIC_HDR_SPACE cfg) then Inr (False, s)
      else bind_err
             (space_loop cfg (PANASONIC_BIT_MARK cfg) (PANASONIC_ONE_SPACE cfg)
                (PANASONIC_ZERO_SPACE cfg) (rawbuf s) (PANASONIC_BITS cfg) 3 (0 :: u64))
             (\<lambda>r. case r of
                None \<Rightarrow> Inr (False, s)
              | Some (offset, data) \<Rightarrow>
                  Inr (True, s\<lparr>value := ucast data, panasonicAddress := ucast (drop_bit 32 data),
                               decode_type := PANASONIC, bits := int (PANASONIC_BITS cfg)\<rparr>)))"

definition decodeLG :: "config \<Rightarrow> state \<Rightarrow> error + (bool \<times> state)" where
  "decodeLG cfg s =
     (if \<not> MATCH_MARK cfg (sint (rawbuf s 1)) (LG_HDR_MARK cfg) then Inr (False, s)
      else if rawlen s < 2 * LG_BITS cfg + 1 then Inr (False, s)
      else if \<not> MATCH_SPACE cfg (sint (rawbuf s 2)) (LG_HDR_SPACE cfg) then Inr (False, s)
      else bind_err
             (space_loop cfg (LG_BIT_MARK cfg) (LG_ONE_SPACE cfg) (LG_ZERO_SPACE cfg)
                (rawbuf s) (LG_BITS cfg) 3 (0 :: u32))
             (\<lambda>r. case r of
                None \<Rightarrow> Inr (False, s)
              | Some (offset, data) \<Rightarrow>
                  bind_err (rd (rawbuf s) offset) (\<lambda>stop.
                    if \<not> MATCH_MARK cfg (sint stop) (LG_BIT_MARK cfg) then Inr (False, s)
                    else Inr (True, s\<lparr>bits := int (LG_BITS cfg), value := data,
                                       decode_type := LG\<rparr>))))"

definition decodeJVC :: "config \<Rightarrow> state \<Rightarrow> error + (bool \<times> state)" where
  "decodeJVC cfg s =
     (if rawlen s - 1 = 33
         \<and> MATCH_MARK cfg (sint (rawbuf s 1)) (JVC_BIT_MARK cfg)
         \<and> MATCH_MARK cfg (sint (rawbuf s (rawlen s - 1))) (JVC_BIT_MARK cfg)
      then Inr (True, s\<lparr>bits := 0, value := REPEAT, decode_type := JVC\<rparr>)
      else if \<not> MATCH_MARK cfg (sint (rawbuf s 1)) (JVC_HDR_MARK cfg) then Inr (False, s)
      else if rawlen s < 2 * JVC_BITS cfg + 1 then Inr (False, s)
      else if \<not> MATCH_SPACE cfg (sint (rawbuf s 2)) (JVC_HDR_SPACE cfg) then Inr (False, s)
      else bind_err
             (space_loop cfg (JVC_BIT_MARK cfg) (JVC_ONE_SPACE cfg) (JVC_ZERO_SPACE cfg)
                (rawbuf s) (JVC_BITS cfg) 3 (0 :: u32))
             (\<lambda>r. case r of
                None \<Rightarrow> Inr (False, s)
              | Some (offset, data) \<Rightarrow>
                  bind_err (rd (rawbuf s) offset) (\<lambda>stop.
                    if \<not> MATCH_MARK cfg (sint stop) (JVC_BIT_MARK cfg) then Inr (False, s)
                    else Inr (True, s\<lparr>bits := int (JVC_BITS cfg), value := data,
                                       decode_type := JVC\<rparr>))))"

definition decodeSAMSUNG :: "config \<Rightarrow> state \<Rightarrow> error + (bool \<times> state)" where
  "decodeSAMSUNG cfg s =
     (if \<not> MATCH_MARK cfg (sint (rawbuf s 1)) (SAMSUNG_HDR_MARK cfg) then Inr (False, s)
      else if rawlen s = 4
              \<and> MATCH_SPACE cfg (sint (rawbuf s 2)) (SAMSUNG_RPT_SPACE cfg)
              \<and> MATCH_MARK cfg (sint (rawbuf s 3)) (SAMSUNG_BIT_MARK cfg)
      then Inr (True, s\<lparr>bits := 0, value := REPEAT, decode_type := SAMSUNG\<rparr>)
      else if rawlen s < 2 * SAMSUNG_BITS cfg + 4 then Inr (False, s)
      else if \<not> MATCH_SPACE cfg (sint (rawbuf s 2)) (SAMSUNG_HDR_SPACE cfg) then Inr (False, s)
      else bind_err
             (space_loop cfg (SAMSUNG_BIT_MARK cfg) (SAMSUNG_ONE_SPACE cfg)
                (SAMSUNG_ZERO_SPACE cfg) (rawbuf s) (SAMSUNG_BITS cfg) 3 (0 :: u32))
             (\<lambda>r. case r of
                None \<Rightarrow> Inr (False, s)
              | Some (offset, data) \<Rightarrow>
                  Inr (True, s\<lparr>bits := int (SAMSUNG_BITS cfg), value := data,
                               decode_type := SAMSUNG\<rparr>)))"

subsection \<open>The hash of an unknown code\<close>

text \<open>
  \<^verbatim>\<open>compare\<close> multiplies an \<^verbatim>\<open>unsigned int\<close> by the floating-point constant
  \<^verbatim>\<open>.8\<close>. The operands are below \<open>2 ^ 16\<close>, so the rounded product lies on the same
  side of every integer as the exact product \<open>0.8 * oldval\<close> (and equals it when it is
  an integer): the comparison is the comparison of the exact values.
\<close>

definition compare :: "tick \<Rightarrow> tick \<Rightarrow> int" where
  "compare oldval newval =
     (if real (unat newval) < real (unat oldval) * 0.8 then 0
      else if real (unat oldval) < real (unat newval) * 0.8 then 2
      else 1)"

definition FNV_PRIME_32 :: u32 where "FNV_PRIME_32 = 16777619"
definition FNV_BASIS_32 :: u32 where "FNV_BASIS_32 = 2166136261"

text \<open>\<^verbatim>\<open>for (int i = 1; i+2 < rawlen; i++)\<close> of \<^verbatim>\<open>decodeHash\<close>.\<close>

function hash_loop :: "(nat \<Rightarrow> tick) \<Rightarrow> nat \<Rightarrow> nat \<Rightarrow> u32 \<Rightarrow> error + u32" where
  "hash_loop buf len i hash =
     (if i + 2 < len then
        bind_err (rd buf i) (\<lambda>oldval.
        bind_err (rd buf (i + 2)) (\<lambda>newval.
          hash_loop buf len (i + 1) ((hash * FNV_PRIME_32) XOR word_of_int (compare oldval newval))))
      else Inr hash)"
  by pat_completeness auto
termination
  by (relation "measure (\<lambda>(buf, len, i, hash). len - i)") auto

declare hash_loop.simps [simp del]

definition decodeHash :: "state \<Rightarrow> error + (bool \<times> state)" where
  "decodeHash s =
     (if rawlen s < 6 then Inr (False, s)
      else bind_err (hash_loop (rawbuf s) (rawlen s) 1 FNV_BASIS_32)
             (\<lambda>hash. Inr (True, s\<lparr>value := hash, bits := 32, decode_type := UNKNOWN\<rparr>)))"

subsection \<open>\<^verbatim>\<open>decode\<close>\<close>

text \<open>\<^verbatim>\<open>if (d()) return true;\<close> followed by the rest of the function.\<close>

definition or_else ::
  "(state \<Rightarrow> error + (bool \<times> state)) \<Rightarrow> (state \<Rightarrow> error + (bool \<times> state))
     \<Rightarrow> state \<Rightarrow> error + (bool \<times> state)" where
  "or_else d rest s = bind_err (d s) (\<lambda>(ok, s'). if ok then Inr (True, s') else rest s')"

definition decode :: "config \<Rightarrow> state \<Rightarrow> error + (bool \<times> state)" where
  "decode cfg s =
     (if rcvstate s \<noteq> STATE_STOP then Inr (False, s)
      else
        or_else (decodeNEC cfg)
       (or_else (decodeSony cfg)
       (or_else (decodeSanyo cfg)
       (or_else (decodeMitsubishi cfg)
       (or_else (decodeRC5 cfg)
       (or_else (decodeRC6 cfg)
       (or_else (decodePanasonic cfg)
       (or_else (decodeLG cfg)
       (or_else (decodeJVC cfg)
       (or_else (decodeSAMSUNG cfg)
       (or_else decodeHash
       (\<lambda>s'. Inr (False, resume s')))))))))))) s)"

subsection \<open>\<^verbatim>\<open>onButton\<close>\<close>

text \<open>\<^verbatim>\<open>for (keyIx = 0; keyIx < codeCount; keyIx++) if (v == code[keyIx]) break;\<close>
  leaves in \<open>keyIx\<close> the index of the first entry equal to \<open>v\<close>, or \<open>codeCount\<close>.\<close>

fun find_code :: "u32 \<Rightarrow> u32 list \<Rightarrow> nat" where
  "find_code v [] = 0"
| "find_code v (c # cs) = (if v = c then 0 else Suc (find_code v cs))"

text \<open>
  \<open>code\<close> is the array \<^verbatim>\<open>code[]\<close> with its \<^verbatim>\<open>codeCount\<close> entries. The result is what
  \<^verbatim>\<open>onButton\<close> returns, the indices of the button functions \<^verbatim>\<open>fButton[keyIx]\<close> it
  has called, in order, and the state.
\<close>

definition onButton :: "config \<Rightarrow> u32 list \<Rightarrow> state \<Rightarrow> error + (bool \<times> nat list \<times> state)" where
  "onButton cfg code s =
     bind_err (decode cfg s) (\<lambda>(received, s1).
       if received then
         (let codeCount = length code;
              keyIx = find_code (value s1) code;
              s2 = (if keyIx < codeCount then s1\<lparr>repeat := 0, lastValue := value s1\<rparr> else s1)
          in if keyIx \<ge> codeCount \<and> value s2 = REPEAT then
               (let s3 = s2\<lparr>repeat := repeat s2 + 1\<rparr>
                in if sint (repeat s3) < REPEAT_PAUSE then Inr (False, [], resume s3)
                   else
                     (let keyIx' = find_code (lastValue s3) code
                      in if keyIx' < codeCount then Inr (True, [keyIx'], resume s3)
                         else Inr (False, [], resume s3)))
             else if keyIx < codeCount then Inr (True, [keyIx], resume s2)
             else Inr (False, [], resume s2))
       else Inr (False, [], s1))"

subsection \<open>A configuration\<close>

text \<open>The conversion of a floating-point value to \<^verbatim>\<open>int\<close> truncates; \<open>tdiv a b\<close> is the
  truncated quotient.\<close>

definition tdiv :: "int \<Rightarrow> int \<Rightarrow> int" where
  "tdiv a b = sgn a * sgn b * (\<bar>a\<bar> div \<bar>b\<bar>)"

definition USECPERTICK :: int where "USECPERTICK = 50"
definition TOLERANCE :: int where "TOLERANCE = 20"

text \<open>
  Modelled from the spec: \<^verbatim>\<open>TICKS_LOW\<close> and \<^verbatim>\<open>TICKS_HIGH\<close> of the missing
  \<^verbatim>\<open>LRremoteInt.h\<close>. A measured duration matches a nominal one inside a band of
  20 per cent around it, a tick is 50 microseconds, and the edges of the band are
  rounded to ticks asymmetrically: the lower edge \<open>us * 0.8 / 50\<close> is truncated, the
  upper edge is \<open>us * 1.2 / 50 + 1\<close> truncated.
\<close>

definition ticks_low :: "int \<Rightarrow> int" where
  "ticks_low us = tdiv (us * (100 - TOLERANCE)) (100 * USECPERTICK)"

definition ticks_high :: "int \<Rightarrow> int" where
  "ticks_high us = tdiv (us * (100 + TOLERANCE) + 100 * USECPERTICK) (100 * USECPERTICK)"

text \<open>
  Modelled from the spec: the values of the missing \<^verbatim>\<open>LRremoteInt.h\<close>. The spec gives
  the tolerance and the tick, the NEC timings (header 9000 and 4500, bit mark 560,
  spaces 560 and 1690 microseconds, 32 bits) and the minimum of 12 bits for Sony and
  Sanyo; for the other constants it refers to the published specifications of the
  protocols, and the values here are those (the ones of IRremote v0.11, on which
  \<^verbatim>\<open>LRremote.cpp\<close> says it is based). The gap between two transmissions is 5000
  microseconds, that is 100 ticks.
\<close>

definition reference_config :: config where
  "reference_config = \<lparr>
     TICKS_LOW = ticks_low, TICKS_HIGH = ticks_high, GAP_TICKS = 100,
     NEC_HDR_MARK = 9000, NEC_HDR_SPACE = 4500, NEC_BIT_MARK = 560, NEC_ONE_SPACE = 1690,
     NEC_ZERO_SPACE = 560, NEC_RPT_SPACE = 2250, NEC_BITS = 32,
     SONY_HDR_MARK = 2400, SONY_HDR_SPACE = 600, SONY_ONE_MARK = 1200, SONY_ZERO_MARK = 600,
     SONY_DOUBLE_SPACE_USECS = 500, SONY_BITS = 12,
     SANYO_HDR_MARK = 3500, SANYO_HDR_SPACE = 950, SANYO_ONE_MARK = 2400, SANYO_ZERO_MARK = 700,
     SANYO_DOUBLE_SPACE_USECS = 800, SANYO_BITS = 12,
     MITSUBISHI_HDR_SPACE = 350, MITSUBISHI_ONE_MARK = 1950, MITSUBISHI_ZERO_MARK = 750,
     MITSUBISHI_BITS = 16,
     MIN_RC5_SAMPLES = 11, RC5_T1 = 889,
     MIN_RC6_SAMPLES = 1, RC6_HDR_MARK = 2666, RC6_HDR_SPACE = 889, RC6_T1 = 444,
     PANASONIC_HDR_MARK = 3502, PANASONIC_HDR_SPACE = 1750, PANASONIC_BIT_MARK = 502,
     PANASONIC_ONE_SPACE = 1244, PANASONIC_ZERO_SPACE = 400, PANASONIC_BITS = 48,
     LG_HDR_MARK = 8000, LG_HDR_SPACE = 4000, LG_BIT_MARK = 600, LG_ONE_SPACE = 1600,
     LG_ZERO_SPACE = 550, LG_BITS = 28,
     JVC_HDR_MARK = 8000, JVC_HDR_SPACE = 4000, JVC_BIT_MARK = 600, JVC_ONE_SPACE = 1600,
     JVC_ZERO_SPACE = 550, JVC_BITS = 16,
     SAMSUNG_HDR_MARK = 5000, SAMSUNG_HDR_SPACE = 5000, SAMSUNG_BIT_MARK = 560,
     SAMSUNG_ONE_SPACE = 1600, SAMSUNG_ZERO_SPACE = 560, SAMSUNG_RPT_SPACE = 2250,
     SAMSUNG_BITS = 32\<rparr>"

text \<open>A run of the sampler over the levels sampled at consecutive ticks.\<close>

fun run :: "config \<Rightarrow> level list \<Rightarrow> state \<Rightarrow> error + state" where
  "run cfg [] s = Inr s"
| "run cfg (irdata # rest) s = bind_err (ISR cfg irdata s) (run cfg rest)"

subsection \<open>Observing the decoders\<close>

text \<open>The protocol matchers in the order in which \<^verbatim>\<open>decode\<close> tries them; the hash
  comes after them.\<close>

definition matchers :: "config \<Rightarrow> (state \<Rightarrow> error + (bool \<times> state)) list" where
  "matchers cfg =
     [decodeNEC cfg, decodeSony cfg, decodeSanyo cfg, decodeMitsubishi cfg, decodeRC5 cfg,
      decodeRC6 cfg, decodePanasonic cfg, decodeLG cfg, decodeJVC cfg, decodeSAMSUNG cfg]"

text \<open>\<open>fails d s\<close>: the decoder \<open>d\<close> returns \<^verbatim>\<open>false\<close> in the state \<open>s\<close>.\<close>

definition fails :: "(state \<Rightarrow> error + (bool \<times> state)) \<Rightarrow> state \<Rightarrow> bool" where
  "fails d s = (case d s of Inl e \<Rightarrow> False | Inr (ok, s') \<Rightarrow> \<not> ok)"

text \<open>The state without the four fields that hold the decoded code.\<close>

definition clear_decoded :: "state \<Rightarrow> state" where
  "clear_decoded s = s\<lparr>decode_type := 0, value := 0, bits := 0, panasonicAddress := 0\<rparr>"

text \<open>A state in which a recording is ready: the buffer holds \<open>xs\<close> (and zeros behind
  it), of which the first \<open>n\<close> entries are counted.\<close>

definition buf_of :: "tick list \<Rightarrow> nat \<Rightarrow> tick" where
  "buf_of xs i = (if i < length xs then xs ! i else 0)"

definition ready :: "tick list \<Rightarrow> nat \<Rightarrow> state" where
  "ready xs n = init_state\<lparr>rcvstate := STATE_STOP, rawbuf := buf_of xs, rawlen := n\<rparr>"






text \<open>A Sony code of 12 bits, all ones, as the sampler records it: the gap of 100
  ticks, the header mark, and twelve spaces and marks.\<close>

definition sony_frame :: state where
  "sony_frame = ready ([100, 48] @ concat (replicate 12 [12, 24])) 26"

text \<open>A recording of 4 entries (gap, header mark, header space, one mark) in a buffer
  whose other entries still hold the Panasonic code received before it.\<close>

definition panasonic_stale :: state where
  "panasonic_stale = ready ([100, 70, 35] @ concat (replicate 24 [11, 22, 11, 6]) @ [11]) 4"

text \<open>A recording of 2 entries: the gap and one short mark.\<close>

definition noise_frame :: state where
  "noise_frame = ready [100, 3] 2"

text \<open>The repeat code of NEC: the gap, the header mark, a space of 2250 microseconds
  and one bit mark.\<close>

definition nec_repeat_frame :: state where
  "nec_repeat_frame = ready [100, 180, 45, 11] 4"






subsection \<open>The canonical NEC code\<close>

text \<open>A nominal duration in microseconds as the nearest number of ticks.\<close>

definition us_to_ticks :: "int \<Rightarrow> tick" where
  "us_to_ticks us = word_of_int ((us + USECPERTICK div 2) div USECPERTICK)"

text \<open>
  \<open>nec_canonical s b\<close>: the buffer holds the canonical NEC code of the 32 bits \<open>b\<close>, most
  significant bit first: the header mark of 9000 microseconds in entry 1, the header
  space of 4500 in entry 2, and for each bit a mark of 560 followed by a space of 1690
  for a one or of 560 for a zero. Entry 0, the gap, is any.
\<close>

definition nec_canonical :: "state \<Rightarrow> u32 \<Rightarrow> bool" where
  "nec_canonical s b =
     (rawbuf s 1 = us_to_ticks 9000 \<and> rawbuf s 2 = us_to_ticks 4500
      \<and> list_all (\<lambda>k. rawbuf s (3 + 2 * k) = us_to_ticks 560
                      \<and> rawbuf s (4 + 2 * k) = (if bit b (31 - k) then us_to_ticks 1690
                                                  else us_to_ticks 560)) [0..<32])"

text \<open>The 67 entries of the canonical code of \<open>b\<close> after a gap of 100 ticks: the gap,
  the header mark, the header space and the 32 bits.\<close>

definition nec_frame :: "u32 \<Rightarrow> tick list" where
  "nec_frame b =
     [100, us_to_ticks 9000, us_to_ticks 4500]
     @ concat (map (\<lambda>k. [us_to_ticks 560,
                            if bit b (31 - k) then us_to_ticks 1690 else us_to_ticks 560]) [0..<32])"

text \<open>The code \<open>0x20DF10EF\<close> as a recording that is ready: the 67 entries and the mark
  that ends the last space as entry 67.\<close>

definition nec_with_stop :: state where
  "nec_with_stop = ready (nec_frame 0x20DF10EF @ [us_to_ticks 560]) 68"

text \<open>
  The levels that the receiver shows at consecutive ticks while the canonical code of
  \<open>b\<close> is transmitted: 99 ticks of silence, the header mark for 180 ticks, the header
  space for 90, for each bit a mark for 11 ticks and a space for 34 or 11, the mark that
  ends the last space, and silence again. \<open>nec_recorded\<close> is the state in which this
  input for \<open>0x20DF10EF\<close> leaves the sampler that starts in the initial state.
\<close>

definition nec_input :: "u32 \<Rightarrow> level list" where
  "nec_input b =
     replicate 99 SPACE @ replicate 180 MARK @ replicate 90 SPACE
     @ concat (map (\<lambda>k. replicate 11 MARK @ replicate (if bit b (31 - k) then 34 else 11) SPACE)
                 [0..<32])
     @ replicate 11 MARK @ replicate 101 SPACE"

definition nec_recorded :: state where
  "nec_recorded = projr (run reference_config (nec_input 0x20DF10EF) init_state)"

definition nec_recording_ready :: "state \<Rightarrow> bool" where
  "nec_recording_ready s =
     (rcvstate s = STATE_STOP \<and> rawlen s = 68 \<and> nec_canonical s 0x20DF10EF)"

subsection \<open>The library in operation\<close>

text \<open>
  The states in which \<^verbatim>\<open>decode\<close> can find the sampler and the object. The sketch
  constructs the object, whatever the fields hold that the constructor does not set; from
  then on the timer interrupt ticks, on any input, and the sketch polls with
  \<^verbatim>\<open>onButton\<close>, with any table: \<^verbatim>\<open>onButton\<close> is the only public method that reads or
  writes the state, and \<^verbatim>\<open>decode\<close> and \<^verbatim>\<open>resume\<close> are private. (While the sampler has
  stopped a tick only clears the timer, so a tick during a poll changes nothing that the
  poll reads.)
\<close>

inductive in_operation :: "config \<Rightarrow> state \<Rightarrow> bool" for cfg :: config where
  op_init: "in_operation cfg (LRremote s)"
| op_tick: "in_operation cfg s \<Longrightarrow> ISR cfg irdata s = Inr s' \<Longrightarrow> in_operation cfg s'"
| op_poll: "in_operation cfg s \<Longrightarrow> onButton cfg code s = Inr (handled, called, s')
            \<Longrightarrow> in_operation cfg s'"

text \<open>What the sampler keeps true of its state and its entry count: idle with no
  entries, timing a mark with an odd number of entries, timing a space or stopped with an
  even number.\<close>

definition sampler_inv :: "state \<Rightarrow> bool" where
  "sampler_inv s =
     (rawlen s \<le> RAWBUF
      \<and> (case rcvstate s of
            STATE_IDLE \<Rightarrow> rawlen s = 0
          | STATE_MARK \<Rightarrow> odd (rawlen s)
          | STATE_SPACE \<Rightarrow> even (rawlen s)
          | STATE_STOP \<Rightarrow> even (rawlen s)))"

subsection \<open>Observing the polls\<close>

text \<open>\<open>decodes_to cfg s v\<close>: in the state \<open>s\<close>, \<^verbatim>\<open>decode\<close> returns \<^verbatim>\<open>true\<close> with the value
  \<open>v\<close>.\<close>

definition decodes_to :: "config \<Rightarrow> state \<Rightarrow> u32 \<Rightarrow> bool" where
  "decodes_to cfg s v = (case decode cfg s of Inl e \<Rightarrow> False | Inr (ok, d) \<Rightarrow> ok \<and> value d = v)"

text \<open>The state in which \<^verbatim>\<open>onButton\<close> leaves the object.\<close>

definition poll_state :: "config \<Rightarrow> u32 list \<Rightarrow> state \<Rightarrow> state" where
  "poll_state cfg code s =
     (case onButton cfg code s of Inl e \<Rightarrow> s | Inr (handled, called, s') \<Rightarrow> s')"

text \<open>Between two polls the sampler records the next transmission; it touches neither
  \<^verbatim>\<open>lastValue\<close> nor \<^verbatim>\<open>repeat\<close>. \<open>same_debounce t s\<close>: the state \<open>s\<close> has these two fields
  as \<open>t\<close> has left them.\<close>

definition same_debounce :: "state \<Rightarrow> state \<Rightarrow> bool" where
  "same_debounce t s = (lastValue s = lastValue t \<and> repeat s = repeat t)"

text \<open>The recording \<open>s\<close> in the object that a poll has left as \<open>t\<close>.\<close>

definition next_frame :: "state \<Rightarrow> state \<Rightarrow> state" where
  "next_frame t s = s\<lparr>lastValue := lastValue t, repeat := repeat t\<rparr>"

text \<open>A button held down: the code \<open>0x20DF10EF\<close>, which is polled with the table
  \<open>[0x20DF10EF]\<close>, and then one repeat code after the other, each polled in turn.\<close>

definition held1 :: state where
  "held1 = next_frame (poll_state reference_config [0x20DF10EF] nec_with_stop) nec_repeat_frame"

definition held2 :: state where
  "held2 = next_frame (poll_state reference_config [0x20DF10EF] held1) nec_repeat_frame"

definition held3 :: state where
  "held3 = next_frame (poll_state reference_config [0x20DF10EF] held2) nec_repeat_frame"

definition held4 :: state where
  "held4 = next_frame (poll_state reference_config [0x20DF10EF] held3) nec_repeat_frame"

text \<open>A repeat code in an object that remembers \<open>0x20DF10EF\<close> and has counted 3 repeat
  codes.\<close>

definition held_long :: state where
  "held_long = nec_repeat_frame\<lparr>lastValue := 0x20DF10EF, repeat := 3\<rparr>"

text \<open>The same when 32767 repeat codes have been counted, which takes about an hour of
  holding the button down.\<close>

definition held_max :: state where
  "held_max = nec_repeat_frame\<lparr>lastValue := 0x20DF10EF, repeat := 32767\<rparr>"

subsection \<open>The hash as the specification describes it\<close>

text \<open>
  These definitions follow the words of the specification, to be compared with
  \<^verbatim>\<open>compare\<close> and \<^verbatim>\<open>decodeHash\<close>. The newer duration is classed as shorter if it is
  less than 0.8 times the older, as longer if the older is less than 0.8 times the
  newer, and as equal otherwise.
\<close>

datatype cmp = Shorter | Equal | Longer

definition comparison_class :: "nat \<Rightarrow> nat \<Rightarrow> cmp" where
  "comparison_class older newer =
     (if real newer < 0.8 * real older then Shorter
      else if real older < 0.8 * real newer then Longer
      else Equal)"

fun class_code :: "cmp \<Rightarrow> u32" where
  "class_code Shorter = 0"
| "class_code Equal = 1"
| "class_code Longer = 2"

text \<open>The FNV-1 fold: seeded with the basis 2166136261, each step multiplies the
  running hash by the prime 16777619 and combines the class by exclusive or.\<close>

definition fnv1_fold :: "cmp list \<Rightarrow> u32" where
  "fnv1_fold cs = foldl (\<lambda>h c. (h * 16777619) XOR class_code c) 2166136261 cs"

text \<open>The classes of entry \<open>i + 2\<close> against entry \<open>i\<close>, for every position \<open>i\<close> from 1
  for which \<open>i + 2\<close> is below the entry count.\<close>

definition classes_of :: "state \<Rightarrow> cmp list" where
  "classes_of s =
     map (\<lambda>i. comparison_class (unat (rawbuf s i)) (unat (rawbuf s (i + 2)))) [1..<rawlen s - 2]"

text \<open>Two sequences of classes of the same length that differ in exactly one
  position.\<close>

definition differ_in_one :: "cmp list \<Rightarrow> cmp list \<Rightarrow> bool" where
  "differ_in_one cs cs' =
     (length cs = length cs' \<and> length (filter (\<lambda>(c, c'). c \<noteq> c') (zip cs cs')) = 1)"

text \<open>Two recordings of 6 entries that no protocol matcher accepts; the last entry of
  the second is twice as long, which turns the class of entry 5 against entry 3 from
  equal into longer.\<close>

definition hash_frame :: state where
  "hash_frame = ready [100, 10, 10, 10, 10, 10] 6"

definition hash_frame' :: state where
  "hash_frame' = ready [100, 10, 10, 10, 10, 20] 6"

text \<open>An input that fills the buffer: 99 ticks of silence, then a level that changes at
  every tick, 100 times; and the state in which it leaves the sampler.\<close>

definition full_input :: "level list" where
  "full_input = replicate 99 SPACE @ concat (replicate 50 [MARK, SPACE])"

definition full_buffer :: state where
  "full_buffer = projr (run reference_config full_input init_state)"

section \<open>The sampler stays inside the buffer\<close>

lemma ISR_total: "\<exists>s'. ISR cfg irdata s = Inr s'"
  by (auto simp: ISR_def Let_def rawbuf_push_def bind_err_def split: rcvstate.splits)

lemma ISR_rawlen:
  "rawlen s \<le> RAWBUF \<Longrightarrow> ISR cfg irdata s = Inr s' \<Longrightarrow> rawlen s' \<le> RAWBUF"
  by (auto simp: ISR_def Let_def rawbuf_push_def bind_err_def RAWBUF_def
           split: rcvstate.splits if_splits)

lemma ISR_beyond:
  "ISR cfg irdata s = Inr s' \<Longrightarrow> RAWBUF \<le> i \<Longrightarrow> rawbuf s' i = rawbuf s i"
  by (auto simp: ISR_def Let_def rawbuf_push_def bind_err_def RAWBUF_def
           split: rcvstate.splits if_splits)

lemma ISR_full:
  "RAWBUF \<le> rawlen s \<Longrightarrow> ISR cfg irdata s = Inr (s\<lparr>timer := 0, rcvstate := STATE_STOP\<rparr>)"
  by (simp add: ISR_def Let_def)

lemma reachable_rawlen: "reachable cfg s \<Longrightarrow> rawlen s \<le> RAWBUF"
  by (induction rule: reachable.induct) (simp_all add: init_state_def ISR_rawlen)

lemma run_reachable: "reachable cfg s \<Longrightarrow> run cfg ds s = Inr s' \<Longrightarrow> reachable cfg s'"
proof (induction ds arbitrary: s)
  case Nil
  then show ?case by simp
next
  case (Cons d ds)
  from Cons.prems(2) obtain s1 where s1: "ISR cfg d s = Inr s1" and rest: "run cfg ds s1 = Inr s'"
    by (auto simp: bind_err_Inr)
  from Cons.prems(1) s1 have "reachable cfg s1" by (rule reach_tick)
  then show ?case using rest by (rule Cons.IH)
qed

text \<open>
  C3. In every state that the sampler reaches from the initial state, tick by tick and
  whatever the input, the entry count \<open>rawlen\<close> is at most the capacity \<open>RAWBUF\<close> = 100;
  the next tick returns a state and not the error \<open>OutOfBounds\<close>, so every write of the
  tick is at an index below \<open>RAWBUF\<close>, and no entry at or beyond \<open>RAWBUF\<close> changes; and
  when the entry count equals \<open>RAWBUF\<close> the tick only sets the state to \<open>STATE_STOP\<close> and
  the timer to 0, leaving the buffer and the entry count as they are. An input that
  fills the buffer without a trailing gap therefore ends in \<open>STATE_STOP\<close>.
\<close>

theorem sampler_stays_in_buffer:
  "reachable cfg s \<Longrightarrow>
     rawlen s \<le> RAWBUF
     \<and> (\<exists>s'. ISR cfg irdata s = Inr s' \<and> rawlen s' \<le> RAWBUF
              \<and> (\<forall>i. RAWBUF \<le> i \<longrightarrow> rawbuf s' i = rawbuf s i))
     \<and> (rawlen s = RAWBUF \<longrightarrow>
          ISR cfg irdata s = Inr (s\<lparr>timer := 0, rcvstate := STATE_STOP\<rparr>))"
proof -
  assume r: "reachable cfg s"
  then have len: "rawlen s \<le> RAWBUF" by (rule reachable_rawlen)
  obtain s' where s': "ISR cfg irdata s = Inr s'" using ISR_total by blast
  have len': "rawlen s' \<le> RAWBUF" using len s' by (rule ISR_rawlen)
  have beyond: "\<forall>i. RAWBUF \<le> i \<longrightarrow> rawbuf s' i = rawbuf s i"
    using s' by (simp add: ISR_beyond)
  have full: "rawlen s = RAWBUF \<longrightarrow>
      ISR cfg irdata s = Inr (s\<lparr>timer := 0, rcvstate := STATE_STOP\<rparr>)"
    by (simp add: ISR_full)
  from len s' len' beyond full show ?thesis by blast
qed

text \<open>The witness: 99 ticks of silence, then a level that changes at every tick, fill
  the 100 entries without a gap; the sampler is timing a space, and the mark of the next
  tick is not recorded: the tick stops the recording.\<close>

lemma full_buffer_run:
  "\<not> isl (run reference_config full_input init_state)"
  "rawlen full_buffer = 100"
  "rcvstate full_buffer = STATE_SPACE"
  unfolding full_buffer_def full_input_def by code_simp+

theorem sampler_stays_in_buffer_witness:
  "reachable reference_config full_buffer \<and> rawlen full_buffer = RAWBUF
   \<and> rcvstate full_buffer = STATE_SPACE
   \<and> ISR reference_config MARK full_buffer
        = Inr (full_buffer\<lparr>timer := 0, rcvstate := STATE_STOP\<rparr>)"
proof -
  from full_buffer_run(1) have run: "run reference_config full_input init_state = Inr full_buffer"
    by (cases "run reference_config full_input init_state") (simp_all add: full_buffer_def)
  have r: "reachable reference_config full_buffer"
    using reach_init run by (rule run_reachable)
  from sampler_stays_in_buffer [OF r, of MARK] full_buffer_run(2,3) r show ?thesis
    by (simp add: RAWBUF_def)
qed

section \<open>What a decoder that fails leaves behind\<close>

lemma decodeNEC_fail: "decodeNEC cfg s = Inr (False, s') \<Longrightarrow> s' = s"
  by (auto simp: decodeNEC_def bind_err_def split: if_splits sum.splits option.splits)

lemma decodeSony_fail:
  "decodeSony cfg s = Inr (False, s') \<Longrightarrow> s' = s \<or> s' = s\<lparr>bits := 0\<rparr>"
  by (auto simp: decodeSony_def bind_err_def Let_def split: if_splits sum.splits option.splits)

lemma decodeSanyo_fail:
  "decodeSanyo cfg s = Inr (False, s') \<Longrightarrow> s' = s \<or> s' = s\<lparr>bits := 0\<rparr>"
  by (auto simp: decodeSanyo_def bind_err_def Let_def split: if_splits sum.splits option.splits)

lemma decodeMitsubishi_fail:
  "decodeMitsubishi cfg s = Inr (False, s') \<Longrightarrow> s' = s \<or> s' = s\<lparr>bits := 0\<rparr>"
  by (auto simp: decodeMitsubishi_def bind_err_def Let_def
           split: if_splits sum.splits option.splits)

lemma decodeRC5_fail: "decodeRC5 cfg s = Inr (False, s') \<Longrightarrow> s' = s"
  by (auto simp: decodeRC5_def bind_err_def split: if_splits sum.splits option.splits)

lemma decodeRC6_fail: "decodeRC6 cfg s = Inr (False, s') \<Longrightarrow> s' = s"
  by (auto simp: decodeRC6_def bind_err_def split: if_splits sum.splits option.splits)

lemma decodePanasonic_fail: "decodePanasonic cfg s = Inr (False, s') \<Longrightarrow> s' = s"
  by (auto simp: decodePanasonic_def bind_err_def split: if_splits sum.splits option.splits)

lemma decodeLG_fail: "decodeLG cfg s = Inr (False, s') \<Longrightarrow> s' = s"
  by (auto simp: decodeLG_def bind_err_def split: if_splits sum.splits option.splits)

lemma decodeJVC_fail: "decodeJVC cfg s = Inr (False, s') \<Longrightarrow> s' = s"
  by (auto simp: decodeJVC_def bind_err_def split: if_splits sum.splits option.splits)

lemma decodeSAMSUNG_fail: "decodeSAMSUNG cfg s = Inr (False, s') \<Longrightarrow> s' = s"
  by (auto simp: decodeSAMSUNG_def bind_err_def split: if_splits sum.splits option.splits)









section \<open>The repeat code of \<^verbatim>\<open>decodeSony\<close>\<close>

text \<open>
  C5. When the buffer has at least \<open>2 * SONY_BITS + 2\<close> entries and entry 0 is below
  \<open>SONY_DOUBLE_SPACE_USECS\<close>, \<^verbatim>\<open>decodeSony\<close> returns \<^verbatim>\<open>true\<close> with the value \<open>REPEAT\<close>
  and 0 bits, as the claim says, but the protocol tag it stores is \<open>SANYO\<close> (9), not
  \<open>SONY\<close> (2).
\<close>

theorem decodeSony_repeat_tag:
  "2 * SONY_BITS cfg + 2 \<le> rawlen s \<Longrightarrow> rawbuf s 0 < SONY_DOUBLE_SPACE_USECS cfg \<Longrightarrow>
     decodeSony cfg s = Inr (True, s\<lparr>bits := 0, value := REPEAT, decode_type := SANYO\<rparr>)
     \<and> SANYO \<noteq> SONY"
  by (simp add: decodeSony_def SANYO_def SONY_def)

text \<open>The witness: a Sony code of 12 bits as the sampler records it, with the gap of
  100 ticks in entry 0.\<close>

theorem decodeSony_repeat_tag_witness:
  "decodeSony reference_config sony_frame
     = Inr (True, sony_frame\<lparr>bits := 0, value := REPEAT, decode_type := SANYO\<rparr>)
   \<and> decode_type (sony_frame\<lparr>bits := 0, value := REPEAT, decode_type := SANYO\<rparr>) \<noteq> SONY"
proof -
  have 1: "2 * SONY_BITS reference_config + 2 \<le> rawlen sony_frame"
    by (simp add: reference_config_def sony_frame_def ready_def)
  have 2: "rawbuf sony_frame 0 < SONY_DOUBLE_SPACE_USECS reference_config"
    by (simp add: reference_config_def sony_frame_def ready_def buf_of_def)
  from decodeSony_repeat_tag [OF 1 2] show ?thesis by simp
qed

section \<open>\<^verbatim>\<open>decodePanasonic\<close> and the entry count\<close>

text \<open>
  C9. \<^verbatim>\<open>decodePanasonic\<close> never reads \<^verbatim>\<open>rawlen\<close>. On \<open>panasonic_stale\<close>, where 4
  entries are counted and the entries behind them are those of an earlier Panasonic
  code, it returns \<^verbatim>\<open>true\<close> with the 48 bits of the earlier code, although
  \<open>3 + 2 * PANASONIC_BITS\<close> = 99 entries would be needed; and so does \<^verbatim>\<open>decode\<close>.
\<close>

theorem decodePanasonic_ignores_rawlen:
  "rawlen panasonic_stale = 4
   \<and> rawlen panasonic_stale < 3 + 2 * PANASONIC_BITS reference_config
   \<and> (case decodePanasonic reference_config panasonic_stale of
        Inl e \<Rightarrow> False
      | Inr (ok, s') \<Rightarrow> ok \<and> bits s' = 48 \<and> value s' = 0xAAAAAAAA
          \<and> panasonicAddress s' = 0xAAAA \<and> decode_type s' = PANASONIC)
   \<and> (case decode reference_config panasonic_stale of
        Inl e \<Rightarrow> False
      | Inr (ok, s') \<Rightarrow> ok \<and> bits s' = 48 \<and> value s' = 0xAAAAAAAA
          \<and> panasonicAddress s' = 0xAAAA \<and> decode_type s' = PANASONIC)"
  by code_simp

section \<open>What \<^verbatim>\<open>decode\<close> changes\<close>

lemma decodeNEC_frame: "decodeNEC cfg s = Inr (ok, s') \<Longrightarrow> clear_decoded s' = clear_decoded s"
  by (auto simp: decodeNEC_def bind_err_def clear_decoded_def
           split: if_splits sum.splits option.splits)

lemma decodeSony_frame: "decodeSony cfg s = Inr (ok, s') \<Longrightarrow> clear_decoded s' = clear_decoded s"
  by (auto simp: decodeSony_def bind_err_def Let_def clear_decoded_def
           split: if_splits sum.splits option.splits)

lemma decodeSanyo_frame: "decodeSanyo cfg s = Inr (ok, s') \<Longrightarrow> clear_decoded s' = clear_decoded s"
  by (auto simp: decodeSanyo_def bind_err_def Let_def clear_decoded_def
           split: if_splits sum.splits option.splits)

lemma decodeMitsubishi_frame:
  "decodeMitsubishi cfg s = Inr (ok, s') \<Longrightarrow> clear_decoded s' = clear_decoded s"
  by (auto simp: decodeMitsubishi_def bind_err_def Let_def clear_decoded_def
           split: if_splits sum.splits option.splits)

lemma decodeRC5_frame: "decodeRC5 cfg s = Inr (ok, s') \<Longrightarrow> clear_decoded s' = clear_decoded s"
  by (auto simp: decodeRC5_def bind_err_def clear_decoded_def
           split: if_splits sum.splits option.splits)

lemma decodeRC6_frame: "decodeRC6 cfg s = Inr (ok, s') \<Longrightarrow> clear_decoded s' = clear_decoded s"
  by (auto simp: decodeRC6_def bind_err_def clear_decoded_def
           split: if_splits sum.splits option.splits)

lemma decodePanasonic_frame:
  "decodePanasonic cfg s = Inr (ok, s') \<Longrightarrow> clear_decoded s' = clear_decoded s"
  by (auto simp: decodePanasonic_def bind_err_def clear_decoded_def
           split: if_splits sum.splits option.splits)

lemma decodeLG_frame: "decodeLG cfg s = Inr (ok, s') \<Longrightarrow> clear_decoded s' = clear_decoded s"
  by (auto simp: decodeLG_def bind_err_def clear_decoded_def
           split: if_splits sum.splits option.splits)

lemma decodeJVC_frame: "decodeJVC cfg s = Inr (ok, s') \<Longrightarrow> clear_decoded s' = clear_decoded s"
  by (auto simp: decodeJVC_def bind_err_def clear_decoded_def
           split: if_splits sum.splits option.splits)

lemma decodeSAMSUNG_frame:
  "decodeSAMSUNG cfg s = Inr (ok, s') \<Longrightarrow> clear_decoded s' = clear_decoded s"
  by (auto simp: decodeSAMSUNG_def bind_err_def clear_decoded_def
           split: if_splits sum.splits option.splits)

lemma decodeHash_frame: "decodeHash s = Inr (ok, s') \<Longrightarrow> clear_decoded s' = clear_decoded s"
  by (auto simp: decodeHash_def bind_err_def clear_decoded_def split: if_splits sum.splits)

lemmas decoder_frames = decodeNEC_frame decodeSony_frame decodeSanyo_frame decodeMitsubishi_frame
  decodeRC5_frame decodeRC6_frame decodePanasonic_frame decodeLG_frame decodeJVC_frame
  decodeSAMSUNG_frame decodeHash_frame

lemma or_else_Inr:
  "or_else d rest s = Inr (ok, s') \<longleftrightarrow>
     (ok \<and> d s = Inr (True, s')) \<or> (\<exists>t. d s = Inr (False, t) \<and> rest t = Inr (ok, s'))"
  by (cases "d s") (auto simp: or_else_def bind_err_def split: if_splits)

lemma decode_chain:
  "rcvstate s = STATE_STOP \<Longrightarrow>
   decode cfg s = foldr or_else (matchers cfg @ [decodeHash]) (\<lambda>s'. Inr (False, resume s')) s"
  by (simp add: decode_def matchers_def)

lemma chain_frame:
  assumes "\<forall>d \<in> set ds. \<forall>s r t. d s = Inr (r, t) \<longrightarrow> clear_decoded t = clear_decoded s"
    and "foldr or_else ds final s = Inr (ok, s')"
  shows "(ok \<and> clear_decoded s' = clear_decoded s)
         \<or> (\<exists>t. clear_decoded t = clear_decoded s \<and> final t = Inr (ok, s'))"
  using assms
proof (induction ds arbitrary: s)
  case Nil
  then show ?case by auto
next
  case (Cons d ds)
  from Cons.prems(2) have
    "(ok \<and> d s = Inr (True, s'))
     \<or> (\<exists>t. d s = Inr (False, t) \<and> foldr or_else ds final t = Inr (ok, s'))"
    by (simp add: or_else_Inr)
  then show ?case
  proof
    assume "ok \<and> d s = Inr (True, s')"
    with Cons.prems(1) show ?thesis by auto
  next
    assume "\<exists>t. d s = Inr (False, t) \<and> foldr or_else ds final t = Inr (ok, s')"
    then obtain t where t: "d s = Inr (False, t)" and r: "foldr or_else ds final t = Inr (ok, s')"
      by blast
    from t Cons.prems(1) have ct: "clear_decoded t = clear_decoded s" by auto
    from Cons.prems(1)
    have "\<forall>d \<in> set ds. \<forall>s r t. d s = Inr (r, t) \<longrightarrow> clear_decoded t = clear_decoded s"
      by simp
    from Cons.IH [OF this r] ct show ?thesis by auto
  qed
qed

lemma all_decoders_frame:
  "\<forall>d \<in> set (matchers cfg @ [decodeHash]).
     \<forall>s r t. d s = Inr (r, t) \<longrightarrow> clear_decoded t = clear_decoded s"
  by (auto simp: matchers_def dest: decoder_frames)

lemma decode_outcome:
  assumes "decode cfg s = Inr (ok, s')" and "rcvstate s = STATE_STOP"
  shows "(ok \<and> clear_decoded s' = clear_decoded s)
         \<or> (\<not> ok \<and> (\<exists>t. clear_decoded t = clear_decoded s \<and> s' = resume t))"
  using chain_frame [OF all_decoders_frame, of cfg "\<lambda>s'. Inr (False, resume s')" s ok s'] assms
  by (auto simp: decode_chain)

lemma clear_decoded_fields:
  assumes "clear_decoded t = clear_decoded s"
  shows "rcvstate t = rcvstate s" and "timer t = timer s" and "rawbuf t = rawbuf s"
    and "rawlen t = rawlen s" and "lastValue t = lastValue s" and "repeat t = repeat s"
proof -
  have "rcvstate (clear_decoded t) = rcvstate (clear_decoded s)"
       "timer (clear_decoded t) = timer (clear_decoded s)"
       "rawbuf (clear_decoded t) = rawbuf (clear_decoded s)"
       "rawlen (clear_decoded t) = rawlen (clear_decoded s)"
       "lastValue (clear_decoded t) = lastValue (clear_decoded s)"
       "repeat (clear_decoded t) = repeat (clear_decoded s)"
    by (simp_all only: assms)
  then show "rcvstate t = rcvstate s" and "timer t = timer s" and "rawbuf t = rawbuf s"
    and "rawlen t = rawlen s" and "lastValue t = lastValue s" and "repeat t = repeat s"
    by (simp_all add: clear_decoded_def)
qed

text \<open>
  C7, as the code has it. \<^verbatim>\<open>decode\<close> never changes the buffer. When it returns
  \<^verbatim>\<open>true\<close>, and when it returns \<^verbatim>\<open>false\<close> because the sampler has not stopped, it
  changes neither the state of the sampler nor the entry count. When the sampler has
  stopped and no decoder accepts the recording, not even the hash, \<^verbatim>\<open>decode\<close> itself
  calls \<^verbatim>\<open>resume()\<close> before it returns \<^verbatim>\<open>false\<close>: the sampler is idle again and the
  entry count is 0.
\<close>

theorem decode_capture_frame:
  "decode cfg s = Inr (ok, s') \<Longrightarrow>
     rawbuf s' = rawbuf s
     \<and> (ok \<or> rcvstate s \<noteq> STATE_STOP \<longrightarrow> rcvstate s' = rcvstate s \<and> rawlen s' = rawlen s)
     \<and> (\<not> ok \<and> rcvstate s = STATE_STOP \<longrightarrow> rcvstate s' = STATE_IDLE \<and> rawlen s' = 0)"
proof (cases "rcvstate s = STATE_STOP")
  case False
  assume "decode cfg s = Inr (ok, s')"
  with False show ?thesis by (simp add: decode_def)
next
  case True
  assume "decode cfg s = Inr (ok, s')"
  from decode_outcome [OF this True] True show ?thesis
    by (auto simp: resume_def dest: clear_decoded_fields)
qed

text \<open>The counterexample to C7 as it is stated: on the recording \<open>noise_frame\<close>, which is
  ready and has 2 entries, \<^verbatim>\<open>decode\<close> returns \<^verbatim>\<open>false\<close> and leaves the sampler idle
  with no entries.\<close>

theorem decode_capture_frame_counterexample:
  "rcvstate noise_frame = STATE_STOP \<and> rawlen noise_frame = 2
   \<and> \<not> isl (decode reference_config noise_frame)
   \<and> \<not> fst (projr (decode reference_config noise_frame))
   \<and> rcvstate (snd (projr (decode reference_config noise_frame))) = STATE_IDLE
   \<and> rawlen (snd (projr (decode reference_config noise_frame))) = 0"
  by code_simp

text \<open>The witness: \<^verbatim>\<open>decode\<close> succeeds on the repeat code of NEC and leaves the sampler
  stopped with its 4 entries; it fails on \<open>noise_frame\<close> and leaves the sampler idle
  with no entries.\<close>

lemma decode_nec_repeat:
  "\<not> isl (decode reference_config nec_repeat_frame)"
  "fst (projr (decode reference_config nec_repeat_frame))"
  by code_simp+

lemma decode_noise:
  "\<not> isl (decode reference_config noise_frame)"
  "\<not> fst (projr (decode reference_config noise_frame))"
  by code_simp+

theorem decode_capture_frame_witness:
  "rcvstate (snd (projr (decode reference_config nec_repeat_frame))) = STATE_STOP
   \<and> rawlen (snd (projr (decode reference_config nec_repeat_frame))) = 4
   \<and> rcvstate (snd (projr (decode reference_config noise_frame))) = STATE_IDLE
   \<and> rawlen (snd (projr (decode reference_config noise_frame))) = 0"
proof -
  obtain ok s' where a: "decode reference_config nec_repeat_frame = Inr (ok, s')" and ok: ok
    using decode_nec_repeat by (cases "decode reference_config nec_repeat_frame") auto
  obtain ok2 s2 where b: "decode reference_config noise_frame = Inr (ok2, s2)" and nok: "\<not> ok2"
    using decode_noise by (cases "decode reference_config noise_frame") auto
  have c: "rcvstate nec_repeat_frame = STATE_STOP" "rawlen nec_repeat_frame = 4"
     "rcvstate noise_frame = STATE_STOP"
    by (simp_all add: nec_repeat_frame_def noise_frame_def ready_def)
  from decode_capture_frame [OF a] decode_capture_frame [OF b] ok nok c a b
  show ?thesis by simp
qed

section \<open>A recording that no protocol matcher accepts\<close>

lemma decodeNEC_bits:
  "fails (decodeNEC cfg) (s\<lparr>bits := b\<rparr>) = fails (decodeNEC cfg) s"
  by (auto simp: fails_def decodeNEC_def bind_err_def Let_def
           split: if_splits option.splits sum.splits)

lemma decodeSony_bits:
  "fails (decodeSony cfg) (s\<lparr>bits := b\<rparr>) = fails (decodeSony cfg) s"
  by (auto simp: fails_def decodeSony_def bind_err_def Let_def
           split: if_splits option.splits sum.splits)

lemma decodeSanyo_bits:
  "fails (decodeSanyo cfg) (s\<lparr>bits := b\<rparr>) = fails (decodeSanyo cfg) s"
  by (auto simp: fails_def decodeSanyo_def bind_err_def Let_def
           split: if_splits option.splits sum.splits)

lemma decodeMitsubishi_bits:
  "fails (decodeMitsubishi cfg) (s\<lparr>bits := b\<rparr>) = fails (decodeMitsubishi cfg) s"
  by (auto simp: fails_def decodeMitsubishi_def bind_err_def Let_def
           split: if_splits option.splits sum.splits)

lemma decodeRC5_bits:
  "fails (decodeRC5 cfg) (s\<lparr>bits := b\<rparr>) = fails (decodeRC5 cfg) s"
  by (auto simp: fails_def decodeRC5_def bind_err_def Let_def
           split: if_splits option.splits sum.splits)

lemma decodeRC6_bits:
  "fails (decodeRC6 cfg) (s\<lparr>bits := b\<rparr>) = fails (decodeRC6 cfg) s"
  by (auto simp: fails_def decodeRC6_def bind_err_def Let_def
           split: if_splits option.splits sum.splits)

lemma decodePanasonic_bits:
  "fails (decodePanasonic cfg) (s\<lparr>bits := b\<rparr>) = fails (decodePanasonic cfg) s"
  by (auto simp: fails_def decodePanasonic_def bind_err_def Let_def
           split: if_splits option.splits sum.splits)

lemma decodeLG_bits:
  "fails (decodeLG cfg) (s\<lparr>bits := b\<rparr>) = fails (decodeLG cfg) s"
  by (auto simp: fails_def decodeLG_def bind_err_def Let_def
           split: if_splits option.splits sum.splits)

lemma decodeJVC_bits:
  "fails (decodeJVC cfg) (s\<lparr>bits := b\<rparr>) = fails (decodeJVC cfg) s"
  by (auto simp: fails_def decodeJVC_def bind_err_def Let_def
           split: if_splits option.splits sum.splits)

lemma decodeSAMSUNG_bits:
  "fails (decodeSAMSUNG cfg) (s\<lparr>bits := b\<rparr>) = fails (decodeSAMSUNG cfg) s"
  by (auto simp: fails_def decodeSAMSUNG_def bind_err_def Let_def
           split: if_splits option.splits sum.splits)


lemma matchers_bits:
  "d \<in> set (matchers cfg) \<Longrightarrow> fails d (s\<lparr>bits := b\<rparr>) = fails d s"
  by (auto simp: matchers_def decodeNEC_bits decodeSony_bits decodeSanyo_bits
        decodeMitsubishi_bits decodeRC5_bits decodeRC6_bits decodePanasonic_bits decodeLG_bits
        decodeJVC_bits decodeSAMSUNG_bits)

lemma matchers_fail:
  "d \<in> set (matchers cfg) \<Longrightarrow> d s = Inr (False, s') \<Longrightarrow> s' = s \<or> s' = s\<lparr>bits := 0\<rparr>"
  by (auto simp: matchers_def
           dest: decodeNEC_fail decodeSony_fail decodeSanyo_fail decodeMitsubishi_fail
             decodeRC5_fail decodeRC6_fail decodePanasonic_fail decodeLG_fail decodeJVC_fail
             decodeSAMSUNG_fail)

lemma fails_Inr: "fails d s \<Longrightarrow> \<exists>t. d s = Inr (False, t)"
  by (auto simp: fails_def split: sum.splits)

lemma or_else_fails: "d s = Inr (False, t) \<Longrightarrow> or_else d rest s = rest t"
  by (simp add: or_else_def bind_err_def)

lemma chain_fail:
  assumes "set ds \<subseteq> set (matchers cfg)" and "\<forall>d \<in> set ds. fails d s"
  shows "foldr or_else ds final s = final s \<or> foldr or_else ds final s = final (s\<lparr>bits := 0\<rparr>)"
  using assms
proof (induction ds arbitrary: s)
  case Nil
  then show ?case by simp
next
  case (Cons d ds)
  from Cons.prems have d: "d \<in> set (matchers cfg)" and sub: "set ds \<subseteq> set (matchers cfg)"
    and fd: "fails d s" and fds: "\<forall>d \<in> set ds. fails d s"
    by auto
  from fd obtain t where t: "d s = Inr (False, t)" using fails_Inr by blast
  from matchers_fail [OF d t] have ts: "t = s \<or> t = s\<lparr>bits := 0\<rparr>" .
  have "\<forall>d \<in> set ds. fails d t"
  proof
    fix d' assume d': "d' \<in> set ds"
    with sub have "d' \<in> set (matchers cfg)" by auto
    from matchers_bits [OF this, where s=s and b=0] fds d' ts show "fails d' t" by auto
  qed
  from Cons.IH [OF sub this]
  have "foldr or_else ds final t = final t \<or> foldr or_else ds final t = final (t\<lparr>bits := 0\<rparr>)" .
  moreover have "foldr or_else (d # ds) final s = foldr or_else ds final t"
    using t by (simp add: or_else_fails)
  ultimately show ?case using ts by auto
qed

lemma decode_chain_matchers:
  "rcvstate s = STATE_STOP \<Longrightarrow>
   decode cfg s = foldr or_else (matchers cfg)
                    (or_else decodeHash (\<lambda>s'. Inr (False, resume s'))) s"
  by (simp add: decode_def matchers_def)

lemma decode_after_matchers:
  assumes "rcvstate s = STATE_STOP" and "\<forall>d \<in> set (matchers cfg). fails d s"
  shows "decode cfg s = or_else decodeHash (\<lambda>s'. Inr (False, resume s')) s
       \<or> decode cfg s = or_else decodeHash (\<lambda>s'. Inr (False, resume s')) (s\<lparr>bits := 0\<rparr>)"
  using chain_fail [OF subset_refl assms(2)] decode_chain_matchers [OF assms(1)]
  by simp






section \<open>The hash of a recording that no protocol matcher accepts\<close>

lemma compare_class:
  "word_of_int (compare oldval newval) = class_code (comparison_class (unat oldval) (unat newval))"
  by (simp add: compare_def comparison_class_def mult.commute)

lemma hash_loop_fold:
  "len \<le> RAWBUF \<Longrightarrow>
   hash_loop buf len i h
     = Inr (foldl (\<lambda>h c. (h * 16777619) XOR class_code c) h
              (map (\<lambda>j. comparison_class (unat (buf j)) (unat (buf (j + 2)))) [i..<len - 2]))"
proof (induction buf len i h rule: hash_loop.induct)
  case (1 buf len i hash)
  show ?case
  proof (cases "i + 2 < len")
    case True
    then have lt: "i < len - 2" by simp
    from True 1(2) have b: "i < RAWBUF" "i + 2 < RAWBUF" by simp_all
    have "hash_loop buf len i hash
        = hash_loop buf len (i + 1) ((hash * FNV_PRIME_32) XOR word_of_int (compare (buf i) (buf (i + 2))))"
      using True b by (subst hash_loop.simps) (simp add: rd_def bind_err_def)
    also have "\<dots> = Inr (foldl (\<lambda>h c. (h * 16777619) XOR class_code c)
              ((hash * FNV_PRIME_32) XOR word_of_int (compare (buf i) (buf (i + 2))))
              (map (\<lambda>j. comparison_class (unat (buf j)) (unat (buf (j + 2)))) [i + 1..<len - 2]))"
      using 1(1) [OF True, of "buf i" "buf (i + 2)"] b 1(2) by (simp add: rd_def)
    finally show ?thesis
      using lt by (simp add: upt_conv_Cons compare_class FNV_PRIME_32_def)
  next
    case False
    then show ?thesis by (subst hash_loop.simps) simp
  qed
qed

lemma fnv_prime_inverse: "(16777619 :: u32) * 899433627 = 1"
  by simp

lemma fnv_step_inj: "(h * 16777619) XOR x = (h' * 16777619) XOR x \<Longrightarrow> h = (h' :: u32)"
proof -
  assume "(h * 16777619) XOR x = (h' * 16777619) XOR x"
  then have "((h * 16777619) XOR x) XOR x = ((h' * 16777619) XOR x) XOR x" by simp
  then have "h * 16777619 = h' * 16777619" by (simp add: xor.assoc)
  then have "h * 16777619 * 899433627 = h' * 16777619 * 899433627" by (rule arg_cong)
  then have "h * (16777619 * 899433627) = h' * (16777619 * 899433627)"
    by (simp only: mult.assoc)
  then show ?thesis by (simp only: fnv_prime_inverse mult_1_right)
qed

lemma fnv_fold_inj:
  "foldl (\<lambda>h c. (h * 16777619) XOR class_code c) h cs
     = foldl (\<lambda>h c. (h * 16777619) XOR class_code c) h' cs \<Longrightarrow> h = h'"
proof (induction cs arbitrary: h h')
  case Nil
  then show ?case by simp
next
  case (Cons c cs)
  from Cons.prems have "(h * 16777619) XOR class_code c = (h' * 16777619) XOR class_code c"
    by (auto dest: Cons.IH)
  then show ?case by (rule fnv_step_inj)
qed

lemma class_code_inj: "class_code c = class_code c' \<Longrightarrow> c = c'"
  by (cases c; cases c') simp_all

lemma xor_left_inj: "(a :: u32) XOR x = a XOR y \<Longrightarrow> x = y"
proof -
  assume "a XOR x = a XOR y"
  then have "a XOR (a XOR x) = a XOR (a XOR y)" by simp
  then show ?thesis by (simp add: xor.assoc [symmetric])
qed

lemma no_difference: "length cs = length cs' \<Longrightarrow> filter (\<lambda>(c, c'). c \<noteq> c') (zip cs cs') = [] \<Longrightarrow> cs = cs'"
  by (induction cs cs' rule: list_induct2) (auto split: if_splits)

lemma fnv_fold_flip:
  "length cs = length cs' \<Longrightarrow> length (filter (\<lambda>(c, c'). c \<noteq> c') (zip cs cs')) = 1 \<Longrightarrow>
   foldl (\<lambda>h c. (h * 16777619) XOR class_code c) h cs
     \<noteq> foldl (\<lambda>h c. (h * 16777619) XOR class_code c) h cs'"
proof (induction cs cs' arbitrary: h rule: list_induct2)
  case Nil
  then show ?case by simp
next
  case (Cons c cs c' cs')
  show ?case
  proof (cases "c = c'")
    case True
    with Cons.prems have "length (filter (\<lambda>(c, c'). c \<noteq> c') (zip cs cs')) = 1" by simp
    from Cons.IH [OF this] True show ?thesis by simp
  next
    case False
    with Cons.prems have "filter (\<lambda>(c, c'). c \<noteq> c') (zip cs cs') = []" by simp
    with Cons.hyps have eq: "cs = cs'" by (rule no_difference)
    have "(h * 16777619) XOR class_code c \<noteq> (h * 16777619) XOR class_code c'"
      using False by (auto dest: xor_left_inj class_code_inj)
    then show ?thesis using eq by (auto dest: fnv_fold_inj)
  qed
qed

lemma decodeHash_fold:
  "6 \<le> rawlen s \<Longrightarrow> rawlen s \<le> RAWBUF \<Longrightarrow>
   decodeHash s = Inr (True, s\<lparr>value := fnv1_fold (classes_of s), bits := 32, decode_type := UNKNOWN\<rparr>)"
  by (simp add: decodeHash_def hash_loop_fold bind_err_def fnv1_fold_def classes_of_def
        FNV_BASIS_32_def)

text \<open>
  C4. On a recording that is ready, has at least 6 entries (and at most the capacity of
  the buffer) and on which every protocol matcher fails, \<^verbatim>\<open>decode\<close> returns \<^verbatim>\<open>true\<close>
  with the tag \<open>UNKNOWN\<close>, 32 bits and the value \<open>fnv1_fold (classes_of s)\<close>: the FNV-1
  fold, seeded with 2166136261, that for each position \<open>i\<close> from 1 with \<open>i + 2\<close> below the
  entry count multiplies the hash by 16777619 and combines by exclusive or the class
  of entry \<open>i + 2\<close> against entry \<open>i\<close>. Recordings with the same content have the same
  hash, and a recording whose classes differ from those of \<open>s\<close> in exactly one position
  has a different hash.
\<close>

theorem hash_fallback:
  "rcvstate s = STATE_STOP \<Longrightarrow> 6 \<le> rawlen s \<Longrightarrow> rawlen s \<le> RAWBUF \<Longrightarrow>
   \<forall>d \<in> set (matchers cfg). fails d s \<Longrightarrow>
     decode cfg s
       = Inr (True, s\<lparr>value := fnv1_fold (classes_of s), bits := 32, decode_type := UNKNOWN\<rparr>)
     \<and> (\<forall>t. rawbuf t = rawbuf s \<and> rawlen t = rawlen s \<longrightarrow>
            fnv1_fold (classes_of t) = fnv1_fold (classes_of s))
     \<and> (\<forall>t. differ_in_one (classes_of s) (classes_of t) \<longrightarrow>
            fnv1_fold (classes_of t) \<noteq> fnv1_fold (classes_of s))"
proof -
  assume stop: "rcvstate s = STATE_STOP" and six: "6 \<le> rawlen s" and cap: "rawlen s \<le> RAWBUF"
    and all: "\<forall>d \<in> set (matchers cfg). fails d s"
  have h: "\<And>t. 6 \<le> rawlen t \<Longrightarrow> rawlen t \<le> RAWBUF \<Longrightarrow>
      or_else decodeHash (\<lambda>s'. Inr (False, resume s')) t
        = Inr (True, t\<lparr>value := fnv1_fold (classes_of t), bits := 32, decode_type := UNKNOWN\<rparr>)"
    by (simp add: or_else_def bind_err_def decodeHash_fold)
  have c0: "classes_of (s\<lparr>bits := 0\<rparr>) = classes_of s" by (simp add: classes_of_def)
  from decode_after_matchers [OF stop all] h [of s] h [of "s\<lparr>bits := 0\<rparr>"] six cap c0
  have 1: "decode cfg s
       = Inr (True, s\<lparr>value := fnv1_fold (classes_of s), bits := 32, decode_type := UNKNOWN\<rparr>)"
    by auto
  have 2: "\<forall>t. rawbuf t = rawbuf s \<and> rawlen t = rawlen s \<longrightarrow>
            fnv1_fold (classes_of t) = fnv1_fold (classes_of s)"
    by (simp add: classes_of_def)
  have 3: "\<forall>t. differ_in_one (classes_of s) (classes_of t) \<longrightarrow>
            fnv1_fold (classes_of t) \<noteq> fnv1_fold (classes_of s)"
  proof (intro allI impI)
    fix t
    assume "differ_in_one (classes_of s) (classes_of t)"
    then have len: "length (classes_of s) = length (classes_of t)"
      and one: "length (filter (\<lambda>(c, c'). c \<noteq> c') (zip (classes_of s) (classes_of t))) = 1"
      by (simp_all add: differ_in_one_def)
    from fnv_fold_flip [OF len one, of 2166136261]
    show "fnv1_fold (classes_of t) \<noteq> fnv1_fold (classes_of s)"
      unfolding fnv1_fold_def by (rule not_sym)
  qed
  from 1 2 3 show ?thesis by blast
qed

text \<open>The witness: \<open>hash_frame\<close> is hashed from the classes equal, equal, equal, and
  \<open>hash_frame'\<close>, whose last class is longer, has another hash.\<close>

lemma hash_frame_fails: "list_all (\<lambda>d. fails d hash_frame) (matchers reference_config)"
  by code_simp

lemma hash_frame_classes:
  "classes_of hash_frame = [Equal, Equal, Equal]"
  "classes_of hash_frame' = [Equal, Equal, Longer]"
  by (simp_all add: classes_of_def hash_frame_def hash_frame'_def ready_def buf_of_def
        comparison_class_def upt_rec)

theorem hash_fallback_witness:
  "decode reference_config hash_frame
     = Inr (True, hash_frame\<lparr>value := fnv1_fold [Equal, Equal, Equal], bits := 32,
                             decode_type := UNKNOWN\<rparr>)
   \<and> fnv1_fold [Equal, Equal, Longer] \<noteq> fnv1_fold [Equal, Equal, Equal]"
proof -
  have 1: "rcvstate hash_frame = STATE_STOP" and 2: "6 \<le> rawlen hash_frame"
    and 3: "rawlen hash_frame \<le> RAWBUF"
    by (simp_all add: hash_frame_def ready_def RAWBUF_def)
  have 4: "\<forall>d \<in> set (matchers reference_config). fails d hash_frame"
    using hash_frame_fails by (simp add: list_all_iff)
  have 5: "differ_in_one (classes_of hash_frame) (classes_of hash_frame')"
    by (simp add: hash_frame_classes differ_in_one_def)
  note h = hash_fallback [OF 1 2 3 4]
  from h have a: "decode reference_config hash_frame
     = Inr (True, hash_frame\<lparr>value := fnv1_fold (classes_of hash_frame), bits := 32,
                             decode_type := UNKNOWN\<rparr>)"
    by (rule conjunct1)
  from h have "\<forall>t. differ_in_one (classes_of hash_frame) (classes_of t) \<longrightarrow>
            fnv1_fold (classes_of t) \<noteq> fnv1_fold (classes_of hash_frame)"
    by (rule conjunct2 [THEN conjunct2])
  with 5 have b: "fnv1_fold (classes_of hash_frame') \<noteq> fnv1_fold (classes_of hash_frame)"
    by blast
  from a b show ?thesis by (simp add: hash_frame_classes)
qed

section \<open>The canonical NEC code is decoded\<close>

lemma us_to_ticks_values:
  "us_to_ticks 9000 = 180" "us_to_ticks 4500 = 90" "us_to_ticks 560 = 11" "us_to_ticks 1690 = 34"
  by (simp_all add: us_to_ticks_def USECPERTICK_def)

lemma nec_matches:
  "MATCH_MARK reference_config (sint (180 :: tick)) (NEC_HDR_MARK reference_config)"
  "MATCH_SPACE reference_config (sint (90 :: tick)) (NEC_HDR_SPACE reference_config)"
  "MATCH_MARK reference_config (sint (11 :: tick)) (NEC_BIT_MARK reference_config)"
  "MATCH_SPACE reference_config (sint (34 :: tick)) (NEC_ONE_SPACE reference_config)"
  "\<not> MATCH_SPACE reference_config (sint (11 :: tick)) (NEC_ONE_SPACE reference_config)"
  "MATCH_SPACE reference_config (sint (11 :: tick)) (NEC_ZERO_SPACE reference_config)"
  by (simp_all add: MATCH_MARK_def MATCH_SPACE_def MATCH_def reference_config_def ticks_low_def
        ticks_high_def tdiv_def MARK_EXCESS_def TOLERANCE_def USECPERTICK_def)

lemma space_loop_nec:
  assumes "\<forall>k < length bs. buf (offset + 2 * k) = 11
              \<and> buf (offset + 2 * k + 1) = (if bs ! k then 34 else 11)"
    and "offset + 2 * length bs \<le> RAWBUF"
  shows "space_loop reference_config (NEC_BIT_MARK reference_config)
           (NEC_ONE_SPACE reference_config) (NEC_ZERO_SPACE reference_config) buf (length bs)
           offset data
         = Inr (Some (offset + 2 * length bs,
                      foldl (\<lambda>d c. push_bit 1 d OR of_bool c) data bs))"
  using assms
proof (induction bs arbitrary: offset data)
  case Nil
  then show ?case by simp
next
  case (Cons c bs)
  from Cons.prems(1) have m: "buf offset = 11" and sp: "buf (offset + 1) = (if c then 34 else 11)"
    by force+
  from Cons.prems(2) have b: "offset < RAWBUF" "offset + 1 < RAWBUF" by simp_all
  have rest: "\<forall>k < length bs. buf (offset + 2 + 2 * k) = 11
              \<and> buf (offset + 2 + 2 * k + 1) = (if bs ! k then 34 else 11)"
  proof (intro allI impI)
    fix k assume "k < length bs"
    then have "Suc k < length (c # bs)" by simp
    from Cons.prems(1) [rule_format, OF this]
    show "buf (offset + 2 + 2 * k) = 11 \<and> buf (offset + 2 + 2 * k + 1) = (if bs ! k then 34 else 11)"
      by (simp add: add.commute add.left_commute)
  qed
  from Cons.prems(2) have le: "offset + 2 + 2 * length bs \<le> RAWBUF" by simp
  note ih = Cons.IH [OF rest le, of "push_bit 1 data OR of_bool c"]
  show ?case
    using m sp b nec_matches(3-6) ih by (cases c) (simp_all add: rd_def bind_err_def)
qed

lemma bits_step:
  "n < 32 \<Longrightarrow>
   push_bit 1 (drop_bit (32 - n) b) OR of_bool (bit b (31 - n)) = drop_bit (31 - n) (b :: u32)"
proof (rule bit_word_eqI)
  fix k
  assume n: "n < 32" and k: "k < LENGTH(32)"
  have "bit (push_bit 1 (drop_bit (32 - n) b) OR of_bool (bit b (31 - n))) k
      \<longleftrightarrow> (1 \<le> k \<and> bit b (32 - n + (k - 1))) \<or> (k = 0 \<and> bit b (31 - n))"
    using k by (simp only: bit_or_iff bit_push_bit_iff bit_drop_bit_eq bit_of_bool_iff
        possible_bit_word comp_def) simp
  also have "\<dots> \<longleftrightarrow> bit b (31 - n + k)"
  proof (cases k)
    case 0
    then show ?thesis by simp
  next
    case (Suc j)
    with n have "32 - n + (k - 1) = 31 - n + k" by simp
    with Suc show ?thesis by simp
  qed
  also have "\<dots> \<longleftrightarrow> bit (drop_bit (31 - n) b) k"
    by (simp only: bit_drop_bit_eq comp_def)
  finally show "bit (push_bit 1 (drop_bit (32 - n) b) OR of_bool (bit b (31 - n))) k
      \<longleftrightarrow> bit (drop_bit (31 - n) b) k" .
qed

lemma fold_bits_upto:
  "n \<le> 32 \<Longrightarrow>
   foldl (\<lambda>d c. push_bit 1 d OR of_bool c) 0 (map (\<lambda>k. bit b (31 - k)) [0..<n])
     = drop_bit (32 - n) (b :: u32)"
proof (induction n)
  case 0
  have "drop_bit 32 b = 0" by (rule bit_word_eqI) (simp add: bit_drop_bit_eq bit_imp_le_length)
  then show ?case by simp
next
  case (Suc n)
  then have n: "n < 32" by simp
  then have e: "32 - Suc n = 31 - n" by simp
  have "foldl (\<lambda>d c. push_bit 1 d OR of_bool c) 0 (map (\<lambda>k. bit b (31 - k)) [0..<Suc n])
      = push_bit 1 (foldl (\<lambda>d c. push_bit 1 d OR of_bool c) 0 (map (\<lambda>k. bit b (31 - k)) [0..<n]))
        OR of_bool (bit b (31 - n))"
    by (simp only: upt_Suc_append [OF le0] map_append foldl_append list.map foldl.simps)
  also have "\<dots> = push_bit 1 (drop_bit (32 - n) b) OR of_bool (bit b (31 - n))"
    using Suc by simp
  also have "\<dots> = drop_bit (31 - n) b" using n by (rule bits_step)
  finally show ?case by (simp only: e)
qed

lemma fold_bits:
  "foldl (\<lambda>d c. push_bit 1 d OR of_bool c) 0 (map (\<lambda>k. bit b (31 - k)) [0..<32]) = (b :: u32)"
  using fold_bits_upto [of 32 b] by simp

lemma nec_canonical_entries:
  assumes "nec_canonical s b"
  shows "rawbuf s 1 = 180" and "rawbuf s 2 = 90"
    and "\<forall>k < 32. rawbuf s (3 + 2 * k) = 11
            \<and> rawbuf s (3 + 2 * k + 1) = (if map (\<lambda>k. bit b (31 - k)) [0..<32] ! k then 34 else 11)"
  using assms
  by (simp_all add: nec_canonical_def us_to_ticks_values list_all_iff del: upt.simps)

lemma decodeNEC_canonical:
  assumes "nec_canonical s b" and "2 * 32 + 4 \<le> rawlen s"
  shows "decodeNEC reference_config s = Inr (True, s\<lparr>bits := 32, value := b, decode_type := NEC\<rparr>)"
proof -
  note e = nec_canonical_entries [OF assms(1)]
  have len: "length (map (\<lambda>k. bit b (31 - k)) [0..<32]) = 32" by simp
  have bits32: "NEC_BITS reference_config = 32" by (simp add: reference_config_def)
  have loop: "space_loop reference_config (NEC_BIT_MARK reference_config)
           (NEC_ONE_SPACE reference_config) (NEC_ZERO_SPACE reference_config) (rawbuf s) 32 3 (0 :: u32)
         = Inr (Some (3 + 2 * 32, b))"
    using space_loop_nec [of "map (\<lambda>k. bit b (31 - k)) [0..<32]" "rawbuf s" 3 "0 :: u32"] e(3)
    by (simp only: len fold_bits) (simp add: RAWBUF_def)
  show ?thesis
    using assms(2) e(1,2) nec_matches
    by (simp add: decodeNEC_def bits32 loop bind_err_def)
qed

lemma run_total: "\<exists>s'. run cfg ds s = Inr s'"
proof (induction ds arbitrary: s)
  case Nil
  show ?case by simp
next
  case (Cons d ds)
  obtain s1 where s1: "ISR cfg d s = Inr s1" using ISR_total by blast
  from Cons [of s1] s1 show ?case by (simp add: bind_err_def)
qed

lemma run_in_operation: "in_operation cfg s \<Longrightarrow> run cfg ds s = Inr s' \<Longrightarrow> in_operation cfg s'"
proof (induction ds arbitrary: s)
  case Nil
  then show ?case by simp
next
  case (Cons d ds)
  from Cons.prems(2) obtain s1 where s1: "ISR cfg d s = Inr s1" and rest: "run cfg ds s1 = Inr s'"
    by (auto simp: bind_err_Inr)
  from Cons.prems(1) s1 have "in_operation cfg s1" by (rule op_tick)
  then show ?case using rest by (rule Cons.IH)
qed

lemma ISR_sampler_inv: "sampler_inv s \<Longrightarrow> ISR cfg irdata s = Inr s' \<Longrightarrow> sampler_inv s'"
  by (auto simp: sampler_inv_def ISR_def Let_def rawbuf_push_def bind_err_def RAWBUF_def
           split: rcvstate.splits if_splits)

lemma decode_sampler:
  assumes "decode cfg s = Inr (ok, d)"
  shows "(rawlen d = rawlen s \<and> rcvstate d = rcvstate s)
         \<or> (rawlen d = 0 \<and> rcvstate d = STATE_IDLE)"
proof (cases "rcvstate s = STATE_STOP")
  case True
  from decode_outcome [OF assms True] show ?thesis
  proof
    assume "ok \<and> clear_decoded d = clear_decoded s"
    then show ?thesis using clear_decoded_fields(1,4) [of d s] by simp
  next
    assume "\<not> ok \<and> (\<exists>t. clear_decoded t = clear_decoded s \<and> d = resume t)"
    then show ?thesis by (auto simp: resume_def)
  qed
next
  case False
  with assms show ?thesis by (simp add: decode_def)
qed

lemma onButton_sampler:
  assumes "onButton cfg code s = Inr (handled, called, s')"
  shows "(rawlen s' = rawlen s \<and> rcvstate s' = rcvstate s)
         \<or> (rawlen s' = 0 \<and> rcvstate s' = STATE_IDLE)"
proof -
  from assms obtain ok d where d: "decode cfg s = Inr (ok, d)"
    and o: "(if ok then
         (let codeCount = length code;
              keyIx = find_code (value d) code;
              s2 = (if keyIx < codeCount then d\<lparr>repeat := 0, lastValue := value d\<rparr> else d)
          in if keyIx \<ge> codeCount \<and> value s2 = REPEAT then
               (let s3 = s2\<lparr>repeat := repeat s2 + 1\<rparr>
                in if sint (repeat s3) < REPEAT_PAUSE then Inr (False, [], resume s3)
                   else
                     (let keyIx' = find_code (lastValue s3) code
                      in if keyIx' < codeCount then Inr (True, [keyIx'], resume s3)
                         else Inr (False, [], resume s3)))
             else if keyIx < codeCount then Inr (True, [keyIx], resume s2)
             else Inr (False, [], resume s2))
       else Inr (False, [], d)) = (Inr (handled, called, s') :: error + (bool \<times> nat list \<times> state))"
    by (auto simp: onButton_def bind_err_Inr)
  show ?thesis
  proof (cases ok)
    case True
    with o have "rawlen s' = 0 \<and> rcvstate s' = STATE_IDLE"
      by (auto simp: Let_def resume_def split: if_splits)
    then show ?thesis by simp
  next
    case False
    with o have "s' = d" by simp
    with decode_sampler [OF d] show ?thesis by simp
  qed
qed

lemma in_operation_sampler_inv: "in_operation cfg s \<Longrightarrow> sampler_inv s"
proof (induction rule: in_operation.induct)
  case (op_init s)
  show ?case by (simp add: sampler_inv_def LRremote_def)
next
  case (op_tick s irdata s')
  then show ?case using ISR_sampler_inv by blast
next
  case (op_poll s code handled called s')
  from onButton_sampler [OF op_poll.hyps(2)] op_poll.IH show ?case
    by (auto simp: sampler_inv_def split: rcvstate.splits)
qed

lemma ready_rawlen_even: "in_operation cfg s \<Longrightarrow> rcvstate s = STATE_STOP \<Longrightarrow> even (rawlen s)"
  using in_operation_sampler_inv [of cfg s] by (simp add: sampler_inv_def)

text \<open>
  C1. The object has been constructed and has since been ticked and polled in any way;
  the recording is ready, and the buffer holds the canonical NEC code of the 32 bits \<open>b\<close>:
  the entry count covers its 67 entries, the gap, the header mark, the header space and
  32 bits of a mark and a space each. Then \<^verbatim>\<open>decode\<close> returns \<^verbatim>\<open>true\<close> with the tag
  \<open>NEC\<close>, 32 bits and the value \<open>b\<close>, for every \<open>b\<close>. (\<^verbatim>\<open>decodeNEC\<close> asks for
  \<open>2 * 32 + 4\<close> = 68 entries. The sampler stops a recording only while it times a space,
  so the entry count of a recording that is ready is even, and one that covers the 67
  entries has 68 at least: the space of the last bit is recorded at the mark that ends
  it.)
\<close>

theorem decode_canonical_NEC:
  "in_operation reference_config s \<Longrightarrow> rcvstate s = STATE_STOP \<Longrightarrow> nec_canonical s b \<Longrightarrow>
   67 \<le> rawlen s \<Longrightarrow>
     decode reference_config s = Inr (True, s\<lparr>bits := 32, value := b, decode_type := NEC\<rparr>)"
proof -
  assume op: "in_operation reference_config s" and stop: "rcvstate s = STATE_STOP"
    and canon: "nec_canonical s b" and len: "67 \<le> rawlen s"
  from op stop have "even (rawlen s)" by (rule ready_rawlen_even)
  with len have "rawlen s \<noteq> 67" by auto
  with len have "2 * 32 + 4 \<le> rawlen s" by simp
  with canon have "decodeNEC reference_config s
      = Inr (True, s\<lparr>bits := 32, value := b, decode_type := NEC\<rparr>)"
    by (rule decodeNEC_canonical)
  with stop show ?thesis by (simp add: decode_def or_else_def bind_err_def)
qed

text \<open>The witness: the sampler, started in the initial state, records the transmission
  of the canonical code of \<open>0x20DF10EF\<close>, and \<^verbatim>\<open>decode\<close> returns that code.\<close>

lemma nec_recorded_ready: "nec_recording_ready nec_recorded"
  by code_simp

theorem decode_canonical_NEC_witness:
  "run reference_config (nec_input 0x20DF10EF) init_state = Inr nec_recorded
   \<and> rcvstate nec_recorded = STATE_STOP \<and> rawlen nec_recorded = 68
   \<and> decode reference_config nec_recorded
       = Inr (True, nec_recorded\<lparr>bits := 32, value := 0x20DF10EF, decode_type := NEC\<rparr>)"
proof -
  obtain s' where "run reference_config (nec_input 0x20DF10EF) init_state = Inr s'"
    using run_total by blast
  then have run: "run reference_config (nec_input 0x20DF10EF) init_state = Inr nec_recorded"
    by (simp add: nec_recorded_def)
  have "init_state = LRremote init_state" by (simp add: LRremote_def init_state_def)
  then have "in_operation reference_config init_state" using op_init [of reference_config init_state]
    by simp
  then have op: "in_operation reference_config nec_recorded" using run by (rule run_in_operation)
  from nec_recorded_ready have r: "rcvstate nec_recorded = STATE_STOP" "rawlen nec_recorded = 68"
    "nec_canonical nec_recorded 0x20DF10EF"
    by (simp_all add: nec_recording_ready_def)
  have "67 \<le> rawlen nec_recorded" by (simp add: r(2))
  from decode_canonical_NEC [OF op r(1) r(3) this] run r show ?thesis by simp
qed

section \<open>Repeat codes and the button functions\<close>

lemma find_code_mapped: "v \<in> set code \<Longrightarrow> find_code v code < length code \<and> code ! find_code v code = v"
  by (induction code) auto

lemma find_code_unmapped: "v \<notin> set code \<Longrightarrow> find_code v code = length code"
  by (induction code) auto

lemma decode_True_stop: "decode cfg s = Inr (True, d) \<Longrightarrow> rcvstate s = STATE_STOP"
  by (cases "rcvstate s = STATE_STOP") (simp_all add: decode_def)

lemma decodes_to_decode:
  assumes "decodes_to cfg s v"
  obtains d where "decode cfg s = Inr (True, d)" and "value d = v"
    and "lastValue d = lastValue s" and "repeat d = repeat s"
proof -
  from assms obtain d where d: "decode cfg s = Inr (True, d)" and v: "value d = v"
    by (auto simp: decodes_to_def split: sum.splits)
  from decode_outcome [OF d decode_True_stop [OF d]] have "clear_decoded d = clear_decoded s"
    by simp
  then have "lastValue d = lastValue s" and "repeat d = repeat s"
    by (rule clear_decoded_fields)+
  with d v that show thesis by blast
qed

lemma onButton_mapped:
  assumes "decode cfg s = Inr (True, d)" and "value d \<in> set code"
  shows "onButton cfg code s
         = Inr (True, [find_code (value d) code], resume (d\<lparr>repeat := 0, lastValue := value d\<rparr>))"
  using assms find_code_mapped [OF assms(2)]
  by (simp add: onButton_def bind_err_def Let_def)

lemma onButton_repeat:
  assumes "decode cfg s = Inr (True, d)" and "value d = REPEAT" and "REPEAT \<notin> set code"
  shows "onButton cfg code s
         = (if sint (repeat d + 1) < REPEAT_PAUSE
            then Inr (False, [], resume (d\<lparr>repeat := repeat d + 1\<rparr>))
            else if lastValue d \<in> set code
            then Inr (True, [find_code (lastValue d) code], resume (d\<lparr>repeat := repeat d + 1\<rparr>))
            else Inr (False, [], resume (d\<lparr>repeat := repeat d + 1\<rparr>)))"
proof (cases "lastValue d \<in> set code")
  case True
  from find_code_mapped [OF True] True assms find_code_unmapped [OF assms(3)] show ?thesis
    by (simp add: onButton_def bind_err_def Let_def)
next
  case False
  from find_code_unmapped [OF False] False assms find_code_unmapped [OF assms(3)] show ?thesis
    by (simp add: onButton_def bind_err_def Let_def)
qed

lemma poll_mapped:
  assumes "decodes_to cfg s v" and "v \<in> set code"
  shows "onButton cfg code s = Inr (True, [find_code v code], poll_state cfg code s)"
    and "repeat (poll_state cfg code s) = 0" and "lastValue (poll_state cfg code s) = v"
proof -
  from assms(1) obtain d where d: "decode cfg s = Inr (True, d)" and v: "value d = v"
    by (rule decodes_to_decode)
  from onButton_mapped [OF d, of code] v assms(2)
  have o: "onButton cfg code s = Inr (True, [find_code v code], resume (d\<lparr>repeat := 0, lastValue := v\<rparr>))"
    by simp
  then have p: "poll_state cfg code s = resume (d\<lparr>repeat := 0, lastValue := v\<rparr>)"
    by (simp add: poll_state_def)
  from o p show "onButton cfg code s = Inr (True, [find_code v code], poll_state cfg code s)"
    by simp
  from p show "repeat (poll_state cfg code s) = 0" and "lastValue (poll_state cfg code s) = v"
    by (simp_all add: resume_def)
qed

lemma poll_repeat:
  assumes "decodes_to cfg s REPEAT" and "REPEAT \<notin> set code" and "lastValue s \<in> set code"
  shows "onButton cfg code s
         = (if sint (repeat s + 1) < REPEAT_PAUSE then Inr (False, [], poll_state cfg code s)
            else Inr (True, [find_code (lastValue s) code], poll_state cfg code s))"
    and "repeat (poll_state cfg code s) = repeat s + 1"
    and "lastValue (poll_state cfg code s) = lastValue s"
proof -
  from assms(1) obtain d where d: "decode cfg s = Inr (True, d)" and v: "value d = REPEAT"
    and l: "lastValue d = lastValue s" and r: "repeat d = repeat s"
    by (rule decodes_to_decode)
  note o = onButton_repeat [OF d v assms(2)]
  from o l r assms(3)
  have p: "poll_state cfg code s = resume (d\<lparr>repeat := repeat s + 1\<rparr>)"
    by (simp add: poll_state_def)
  from o p l r assms(3) show "onButton cfg code s
         = (if sint (repeat s + 1) < REPEAT_PAUSE then Inr (False, [], poll_state cfg code s)
            else Inr (True, [find_code (lastValue s) code], poll_state cfg code s))"
    by simp
  from p l show "repeat (poll_state cfg code s) = repeat s + 1"
    and "lastValue (poll_state cfg code s) = lastValue s"
    by (simp_all add: resume_def)
qed

text \<open>
  C2. The table \<open>code\<close> does not map \<open>REPEAT\<close>. A poll decodes a value \<open>v\<close> that the table
  maps: it calls the function of \<open>v\<close>, returns \<^verbatim>\<open>true\<close>, resets the repeat counter and
  remembers \<open>v\<close>. Each of the next three polls finds the object as the poll before it has
  left it and decodes \<open>REPEAT\<close>. The first and the second call no function and return
  \<^verbatim>\<open>false\<close>; the third calls the function of \<open>v\<close>, once, and returns \<^verbatim>\<open>true\<close>.
\<close>

theorem debounce_threshold:
  assumes "REPEAT \<notin> set code" and "v \<in> set code"
    and "decodes_to cfg s0 v"
    and "decodes_to cfg s1 REPEAT" and "same_debounce (poll_state cfg code s0) s1"
    and "decodes_to cfg s2 REPEAT" and "same_debounce (poll_state cfg code s1) s2"
    and "decodes_to cfg s3 REPEAT" and "same_debounce (poll_state cfg code s2) s3"
  shows "onButton cfg code s0 = Inr (True, [find_code v code], poll_state cfg code s0)
       \<and> repeat (poll_state cfg code s0) = 0 \<and> lastValue (poll_state cfg code s0) = v
       \<and> onButton cfg code s1 = Inr (False, [], poll_state cfg code s1)
       \<and> onButton cfg code s2 = Inr (False, [], poll_state cfg code s2)
       \<and> onButton cfg code s3 = Inr (True, [find_code v code], poll_state cfg code s3)
       \<and> code ! find_code v code = v"
proof -
  note p0 = poll_mapped [OF assms(3) assms(2)]
  from assms(5) p0 have s1: "repeat s1 = 0" "lastValue s1 = v" by (simp_all add: same_debounce_def)
  with assms(2) have m1: "lastValue s1 \<in> set code" by simp
  note p1 = poll_repeat [OF assms(4) assms(1) m1]
  from assms(7) p1 s1 have s2: "repeat s2 = 1" "lastValue s2 = v" by (simp_all add: same_debounce_def)
  with assms(2) have m2: "lastValue s2 \<in> set code" by simp
  note p2 = poll_repeat [OF assms(6) assms(1) m2]
  from assms(9) p2 s2 have s3: "repeat s3 = 2" "lastValue s3 = v" by (simp_all add: same_debounce_def)
  with assms(2) have m3: "lastValue s3 \<in> set code" by simp
  note p3 = poll_repeat [OF assms(8) assms(1) m3]
  from p0 p1(1) p2(1) p3(1) s1 s2 s3 find_code_mapped [OF assms(2)]
  show ?thesis by (simp add: REPEAT_PAUSE_def)
qed

text \<open>The witness: the NEC code \<open>0x20DF10EF\<close> followed by three repeat codes.\<close>

lemma held_facts:
  "decodes_to reference_config nec_with_stop 0x20DF10EF"
  "decodes_to reference_config held1 REPEAT"
  "decodes_to reference_config held2 REPEAT"
  "decodes_to reference_config held3 REPEAT"
  "decodes_to reference_config held4 REPEAT"
  by code_simp+

lemma held_links:
  "same_debounce (poll_state reference_config [0x20DF10EF] nec_with_stop) held1"
  "same_debounce (poll_state reference_config [0x20DF10EF] held1) held2"
  "same_debounce (poll_state reference_config [0x20DF10EF] held2) held3"
  "same_debounce (poll_state reference_config [0x20DF10EF] held3) held4"
  by (simp_all add: same_debounce_def held1_def held2_def held3_def held4_def next_frame_def)

theorem debounce_threshold_witness:
  "onButton reference_config [0x20DF10EF] nec_with_stop
     = Inr (True, [0], poll_state reference_config [0x20DF10EF] nec_with_stop)
   \<and> onButton reference_config [0x20DF10EF] held1
     = Inr (False, [], poll_state reference_config [0x20DF10EF] held1)
   \<and> onButton reference_config [0x20DF10EF] held2
     = Inr (False, [], poll_state reference_config [0x20DF10EF] held2)
   \<and> onButton reference_config [0x20DF10EF] held3
     = Inr (True, [0], poll_state reference_config [0x20DF10EF] held3)"
proof -
  have 1: "REPEAT \<notin> set [0x20DF10EF]" and 2: "(0x20DF10EF :: u32) \<in> set [0x20DF10EF]"
    by (simp_all add: REPEAT_def)
  from debounce_threshold [OF 1 2 held_facts(1) held_facts(2) held_links(1) held_facts(3)
      held_links(2) held_facts(4) held_links(3)]
  show ?thesis by simp
qed

lemma poll_counter:
  "(\<exists>v \<in> set code. decodes_to cfg s v)
   \<or> repeat (poll_state cfg code s) = repeat s
   \<or> repeat (poll_state cfg code s) = repeat s + 1"
proof (cases "decode cfg s")
  case (Inl e)
  then show ?thesis by (simp add: poll_state_def onButton_def bind_err_def)
next
  case (Inr r)
  obtain ok d where r: "r = (ok, d)" by (cases r)
  show ?thesis
  proof (cases ok)
    case False
    with Inr r have p: "poll_state cfg code s = d"
      by (simp add: poll_state_def onButton_def bind_err_def)
    have "repeat d = repeat s"
    proof (cases "rcvstate s = STATE_STOP")
      case True
      from decode_outcome [of cfg s ok d] Inr r True False
      obtain t where "clear_decoded t = clear_decoded s" and "d = resume t" by auto
      then show ?thesis using clear_decoded_fields(6) [of t s] by (simp add: resume_def)
    next
      case False
      with Inr r show ?thesis by (simp add: decode_def)
    qed
    with p show ?thesis by simp
  next
    case True
    with Inr r have d: "decode cfg s = Inr (True, d)" by simp
    from decode_outcome [OF d decode_True_stop [OF d]] have "clear_decoded d = clear_decoded s"
      by simp
    then have rd: "repeat d = repeat s" by (rule clear_decoded_fields)
    show ?thesis
    proof (cases "value d \<in> set code")
      case True
      with d have "decodes_to cfg s (value d)" by (simp add: decodes_to_def)
      with True show ?thesis by blast
    next
      case False
      show ?thesis
      proof (cases "value d = REPEAT")
        case True
        with False have "REPEAT \<notin> set code" by simp
        from onButton_repeat [OF d True this] rd show ?thesis
          by (simp add: poll_state_def resume_def)
      next
        case nr: False
        from find_code_unmapped [OF False] d nr rd show ?thesis
          by (simp add: poll_state_def onButton_def bind_err_def Let_def resume_def)
      qed
    qed
  qed
qed

lemma repeat_below_max:
  assumes "REPEAT_PAUSE \<le> sint (r :: 16 word)" and "sint r < 32767"
  shows "sint (r + 1) = sint r + 1"
proof -
  have "sint (r + 1) = signed_take_bit 15 (sint r + 1)"
    by (simp add: sint_word_add)
  also have "\<dots> = sint r + 1"
    using assms by (intro signed_take_bit_int_eq_self) (simp_all add: REPEAT_PAUSE_def)
  finally show ?thesis .
qed

lemma repeat_at_max:
  assumes "\<not> sint (r :: 16 word) < 32767"
  shows "r = 32767" and "sint (r + 1) = - 32768"
proof -
  have "sint r < 2 ^ (LENGTH(16) - 1)" by (rule sint_lt)
  with assms have "sint r = sint (32767 :: 16 word)" by simp
  then show r: "r = 32767" by (rule signed_word_eqI)
  show "sint (r + 1) = - 32768" by (simp add: r)
qed

text \<open>
  C10, as the code has it. The table does not map \<open>REPEAT\<close>, the remembered value is
  mapped, and the repeat counter has reached the threshold \<open>REPEAT_PAUSE\<close>. Then a poll
  that decodes \<open>REPEAT\<close> leaves the remembered value as it is and adds one to the counter,
  a 16-bit \<^verbatim>\<open>int\<close>. While the counter is below its maximum 32767 the poll calls the
  function of the remembered value, once, and returns \<^verbatim>\<open>true\<close>, and the counter is
  still at or above the threshold, so the next such poll fires again. When the counter
  is 32767, \<^verbatim>\<open>++repeat\<close> overflows: the counter becomes -32768, which is below the
  threshold, and the poll calls no function and returns \<^verbatim>\<open>false\<close>. In any state \<open>u\<close>, a
  poll that decodes a mapped value sets the counter to 0, and a poll that does not
  leaves the counter as it is or adds one to it.
\<close>

theorem held_button_fires_until_overflow:
  assumes "REPEAT \<notin> set code" and "lastValue s \<in> set code" and "decodes_to cfg s REPEAT"
    and "REPEAT_PAUSE \<le> sint (repeat s)"
  shows "onButton cfg code s
           = (if sint (repeat s) < 32767
              then Inr (True, [find_code (lastValue s) code], poll_state cfg code s)
              else Inr (False, [], poll_state cfg code s))
       \<and> code ! find_code (lastValue s) code = lastValue s
       \<and> repeat (poll_state cfg code s) = repeat s + 1
       \<and> lastValue (poll_state cfg code s) = lastValue s
       \<and> sint (repeat (poll_state cfg code s))
           = (if sint (repeat s) < 32767 then sint (repeat s) + 1 else - 32768)
       \<and> (decodes_to cfg u v \<and> v \<in> set code \<longrightarrow> repeat (poll_state cfg code u) = 0)
       \<and> ((\<forall>v \<in> set code. \<not> decodes_to cfg u v) \<longrightarrow>
             repeat (poll_state cfg code u) = repeat u
             \<or> repeat (poll_state cfg code u) = repeat u + 1)"
proof -
  note p = poll_repeat [OF assms(3) assms(1) assms(2)]
  have n: "sint (repeat s + 1) = (if sint (repeat s) < 32767 then sint (repeat s) + 1 else - 32768)"
    using repeat_below_max [OF assms(4)] repeat_at_max(2) [of "repeat s"] by simp
  have o: "onButton cfg code s
           = (if sint (repeat s) < 32767
              then Inr (True, [find_code (lastValue s) code], poll_state cfg code s)
              else Inr (False, [], poll_state cfg code s))"
    using p(1) n assms(4) by (simp add: REPEAT_PAUSE_def)
  have r: "decodes_to cfg u v \<and> v \<in> set code \<longrightarrow> repeat (poll_state cfg code u) = 0"
    using poll_mapped(2) by blast
  have c: "(\<forall>v \<in> set code. \<not> decodes_to cfg u v) \<longrightarrow>
             repeat (poll_state cfg code u) = repeat u
             \<or> repeat (poll_state cfg code u) = repeat u + 1"
    using poll_counter [of code cfg u] by blast
  from o p(2,3) n find_code_mapped [OF assms(2)] r c show ?thesis by simp
qed

text \<open>The witness: a repeat code polled when 3 repeat codes have been counted calls the
  function; a repeat code polled when 32767 have been counted, the button still held
  down, calls nothing and leaves the counter at -32768.\<close>

lemma held_repeat:
  "decodes_to reference_config held_long REPEAT"
  "decodes_to reference_config held_max REPEAT"
  by code_simp+

theorem held_button_fires_until_overflow_witness:
  "onButton reference_config [0x20DF10EF] held_long
     = Inr (True, [0], poll_state reference_config [0x20DF10EF] held_long)
   \<and> repeat (poll_state reference_config [0x20DF10EF] held_long) = 4
   \<and> onButton reference_config [0x20DF10EF] held_max
     = Inr (False, [], poll_state reference_config [0x20DF10EF] held_max)
   \<and> sint (repeat (poll_state reference_config [0x20DF10EF] held_max)) = - 32768"
proof -
  have 1: "REPEAT \<notin> set [0x20DF10EF]" by (simp add: REPEAT_def)
  have 2: "lastValue held_long \<in> set [0x20DF10EF]" by (simp add: held_long_def)
  have 3: "REPEAT_PAUSE \<le> sint (repeat held_long)"
    by (simp add: held_long_def REPEAT_PAUSE_def)
  have 4: "lastValue held_max \<in> set [0x20DF10EF]" by (simp add: held_max_def)
  have 5: "REPEAT_PAUSE \<le> sint (repeat held_max)"
    by (simp add: held_max_def REPEAT_PAUSE_def)
  have a: "onButton reference_config [0x20DF10EF] held_long
     = Inr (True, [0], poll_state reference_config [0x20DF10EF] held_long)
   \<and> repeat (poll_state reference_config [0x20DF10EF] held_long) = 4"
    using held_button_fires_until_overflow [OF 1 2 held_repeat(1) 3] by (simp add: held_long_def)
  have b: "onButton reference_config [0x20DF10EF] held_max
     = Inr (False, [], poll_state reference_config [0x20DF10EF] held_max)
   \<and> sint (repeat (poll_state reference_config [0x20DF10EF] held_max)) = - 32768"
    using held_button_fires_until_overflow [OF 1 4 held_repeat(2) 5] by (simp add: held_max_def)
  from a b show ?thesis by simp
qed

end
